theory Spec2Isabelle
  imports Complex_Main "HOL-Library.AList" "HOL-Library.Sublist" "HOL-Library.Log_Nat"
begin

section \<open>Chart smoothing (\<^verbatim>\<open>smoothChartData\<close>)\<close>

text \<open>
  \<^verbatim>\<open>smoothChartData(data, smoothingFactor = 0.2)\<close> returns its argument as it is when
  the argument is falsy or has at most two elements. Otherwise it builds a new array:
  the first point, then for \<open>i = 1 .. length - 2\<close> the exponential moving average of
  the previous smoothed point and the current point, then the last point. An absent
  (null or undefined) argument is \<open>None\<close>; numbers are real numbers here, and the
  properties proved below only use the shape of the loop, not the arithmetic.
\<close>

function smoothLoop :: "real \<Rightarrow> real list \<Rightarrow> nat \<Rightarrow> real list \<Rightarrow> real list" where
  "smoothLoop smoothingFactor data i smoothedData =
     (if i < length data - 1
      then let previous = smoothedData ! (i - 1);
               current = data ! i;
               smoothed = previous * (1 - smoothingFactor) + current * smoothingFactor
           in smoothLoop smoothingFactor data (i + 1) (smoothedData @ [smoothed])
      else smoothedData)"
  by pat_completeness auto
termination
  by (relation "measure (\<lambda>(f, data, i, sm). length data - 1 - i)") auto

definition smoothChartData :: "real list option \<Rightarrow> real \<Rightarrow> real list option" where
  "smoothChartData data smoothingFactor =
     (case data of
        None \<Rightarrow> None
      | Some xs \<Rightarrow>
          if length xs \<le> 2 then Some xs
          else Some (smoothLoop smoothingFactor xs 1 [xs ! 0] @ [xs ! (length xs - 1)]))"

section \<open>Numbers\<close>

text \<open>
  A number in a file is a decimal literal, and stands here for the value it denotes, a
  real number. A number of the script is a double: finite, or one of the two
  infinities, or \<^verbatim>\<open>NaN\<close>; a finite one is given by its value (the sign of a zero is not
  kept: it is printed as \<^verbatim>\<open>0\<close> either way).
\<close>

datatype number = Finite real | PosInfinity | NegInfinity | NaN

text \<open>
  \<open>ilog b x\<close> is the integer part of the logarithm of a positive \<open>x\<close> to the base \<open>b\<close>:
  the \<open>e\<close> with \<open>b ^ e \<le> x < b ^ (e + 1)\<close>. (\<open>floorlog b n\<close> is the number of digits of
  \<open>n\<close> to the base \<open>b\<close>.) \<open>roundEven\<close> rounds to the nearest integer, and a half to the
  even one.
\<close>

definition ilog :: "nat \<Rightarrow> real \<Rightarrow> int" where
  "ilog b x =
     (if 1 \<le> x then int (floorlog b (nat \<lfloor>x\<rfloor>)) - 1
      else - int (floorlog b (nat (\<lceil>1 / x\<rceil> - 1))))"

definition roundEven :: "real \<Rightarrow> int" where
  "roundEven y =
     (let f = \<lfloor>y\<rfloor>
      in if y - of_int f < 1 / 2 then f
         else if 1 / 2 < y - of_int f then f + 1
         else if even f then f else f + 1)"

text \<open>
  The number a literal is read as (by \<^verbatim>\<open>JSON.parse\<close>, and by \<^verbatim>\<open>parseInt\<close> for a literal
  without fraction): the double nearest to its value, the one with the even
  significand when two are equally near. The doubles from \<open>2 ^ e\<close> up to \<open>2 ^ (e + 1)\<close>
  are the multiples of \<open>2 ^ (e - 52)\<close>, those below \<open>2 ^ (- 1022)\<close> the multiples of
  \<open>2 ^ (- 1074)\<close>, and a literal that rounds to \<open>2 ^ 1024\<close> or more is read as an
  infinity.
\<close>

definition toNumber :: "real \<Rightarrow> number" where
  "toNumber x =
     (if x = 0 then Finite 0
      else let e = max (ilog 2 \<bar>x\<bar>) (- 1022);
               q = 2 powi (e - 52);
               r = of_int (roundEven (\<bar>x\<bar> / q)) * q
           in if 2 ^ 1024 \<le> r then (if 0 < x then PosInfinity else NegInfinity)
              else Finite (sgn x * r))"

text \<open>
  The literal a finite positive number \<open>m\<close> is printed as (by \<^verbatim>\<open>JSON.stringify\<close>, which
  prints a number as \<^verbatim>\<open>String\<close> does): the decimal with the fewest significant digits
  that is read back as \<open>m\<close>, and of those with that many digits the one nearest to \<open>m\<close>,
  the even one when two are equally near. With \<open>k\<close> digits the only decimals to try are
  the two multiples of \<open>10 ^ (n - k)\<close> around \<open>m\<close>, where \<open>10 ^ (n - 1) \<le> m < 10 ^ n\<close>;
  seventeen digits always tell a double from its neighbours.
\<close>

definition candidate :: "real \<Rightarrow> nat \<Rightarrow> real option" where
  "candidate m k =
     (let n = ilog 10 m + 1;
          g = 10 powi (n - int k);
          s = \<lfloor>m / g\<rfloor>;
          lo = of_int s * g;
          hi = lo + g;
          vlo = (toNumber lo = Finite m);
          vhi = (toNumber hi = Finite m)
      in if vlo \<and> vhi
         then (if m - lo < hi - m then Some lo
               else if hi - m < m - lo then Some hi
               else if even s then Some lo else Some hi)
         else if vlo then Some lo
         else if vhi then Some hi
         else None)"

fun firstOf :: "(nat \<Rightarrow> real option) \<Rightarrow> nat list \<Rightarrow> real option" where
  "firstOf f [] = None"
| "firstOf f (k # ks) = (case f k of Some v \<Rightarrow> Some v | None \<Rightarrow> firstOf f ks)"

definition shortest :: "real \<Rightarrow> real" where
  "shortest m = (case firstOf (candidate m) [1..<18] of Some v \<Rightarrow> v | None \<Rightarrow> m)"

section \<open>Documents and exceptions\<close>

text \<open>
  The configuration files hold JSON. A document is null, a boolean, a number, a string,
  an array, or an object, which is the list of its properties, each key once, in the
  order of the text (an engine that enumerates number-like keys first writes those
  first, which changes no value under any path of keys). In a file the numbers are
  literals (\<open>json\<close>); in the script, after \<^verbatim>\<open>JSON.parse\<close>, they are doubles (\<open>jsvalue\<close>).
  A file whose text does not parse is \<open>NotJson\<close>.
\<close>

datatype 'n doc =
    JNull
  | JBool bool
  | JNum 'n
  | JStr string
  | JArr "'n doc list"
  | JObj "(string \<times> 'n doc) list"

type_synonym json = "real doc"

type_synonym jsvalue = "number doc"

text \<open>
  \<^verbatim>\<open>JSON.parse\<close> reads every literal as a number and keeps the rest. \<^verbatim>\<open>JSON.stringify\<close>
  prints a finite number as its shortest literal, with the sign in front, and an
  infinity or \<^verbatim>\<open>NaN\<close> as \<^verbatim>\<open>null\<close>, and keeps the rest. \<open>reprinted d\<close> is what a document
  becomes when it is read and written back.
\<close>

primrec JSON_parse :: "json \<Rightarrow> jsvalue" where
  "JSON_parse JNull = JNull"
| "JSON_parse (JBool b) = JBool b"
| "JSON_parse (JNum r) = JNum (toNumber r)"
| "JSON_parse (JStr cs) = JStr cs"
| "JSON_parse (JArr xs) = JArr (map JSON_parse xs)"
| "JSON_parse (JObj kvs) = JObj (map (map_prod id JSON_parse) kvs)"

definition numberToJson :: "number \<Rightarrow> json" where
  "numberToJson n =
     (case n of
        Finite r \<Rightarrow>
          if r = 0 then JNum 0
          else if r < 0 then JNum (- shortest (- r))
          else JNum (shortest r)
      | _ \<Rightarrow> JNull)"

primrec JSON_stringify :: "jsvalue \<Rightarrow> json" where
  "JSON_stringify JNull = JNull"
| "JSON_stringify (JBool b) = JBool b"
| "JSON_stringify (JNum n) = numberToJson n"
| "JSON_stringify (JStr cs) = JStr cs"
| "JSON_stringify (JArr xs) = JArr (map JSON_stringify xs)"
| "JSON_stringify (JObj kvs) = JObj (map (map_prod id JSON_stringify) kvs)"



datatype content = Json json | NotJson

text \<open>
  The exceptions the script can meet: a property access on \<^verbatim>\<open>null\<close> or
  \<^verbatim>\<open>undefined\<close>, a text that is not JSON, and a failure raised by the shell object
  (with the host's message). The message texts of the first two are the engine's; the
  model uses the error's name.
\<close>

datatype exn = TypeError | SyntaxError | HostError string

fun message :: "exn \<Rightarrow> string" where
  "message TypeError = ''TypeError''"
| "message SyntaxError = ''SyntaxError''"
| "message (HostError m) = m"

definition bindE :: "exn + 'a \<Rightarrow> ('a \<Rightarrow> exn + 'b) \<Rightarrow> exn + 'b" where
  "bindE r f = (case r of Inl e \<Rightarrow> Inl e | Inr x \<Rightarrow> f x)"

text \<open>
  \<open>assignProp root path k v\<close> is the statement \<^verbatim>\<open>root.p1.p2...pn.k = v\<close>, on the
  document as a value. Reading a property of \<^verbatim>\<open>null\<close> or \<^verbatim>\<open>undefined\<close> throws, and so
  does assigning to one; reading a property that an object lacks, or any of the
  property names used here from a number, string, boolean or array, gives
  \<^verbatim>\<open>undefined\<close>, on which the next access throws. Assigning to a property of an
  object replaces the property where it stands or appends it. Assigning to a property
  of a number, string or boolean does nothing (the script is not in strict mode), and a
  named property assigned to an array is not written by \<^verbatim>\<open>JSON.stringify\<close>, so the
  document stays as it was.
\<close>

fun assignProp :: "'n doc \<Rightarrow> string list \<Rightarrow> string \<Rightarrow> 'n doc \<Rightarrow> exn + 'n doc" where
  "assignProp j [] k v =
     (case j of
        JNull \<Rightarrow> Inl TypeError
      | JObj kvs \<Rightarrow> Inr (JObj (AList.update k v kvs))
      | _ \<Rightarrow> Inr j)"
| "assignProp j (p # ps) k v =
     (case j of
        JNull \<Rightarrow> Inl TypeError
      | JObj kvs \<Rightarrow>
          (case map_of kvs p of
             None \<Rightarrow> Inl TypeError
           | Some c \<Rightarrow>
               (case assignProp c ps k v of
                  Inl e \<Rightarrow> Inl e
                | Inr c' \<Rightarrow> Inr (JObj (AList.update p c' kvs))))
      | _ \<Rightarrow> Inl TypeError)"

text \<open>The value a document holds under a path of keys, if every key on the way is there.\<close>

fun getPath :: "'n doc \<Rightarrow> string list \<Rightarrow> 'n doc option" where
  "getPath j [] = Some j"
| "getPath (JObj kvs) (p # ps) =
     (case map_of kvs p of None \<Rightarrow> None | Some c \<Rightarrow> getPath c ps)"
| "getPath _ (p # ps) = None"

section \<open>The configuration\<close>

datatype account_type = Offline | Mojang | Microsoft

fun typeName :: "account_type \<Rightarrow> string" where
  "typeName Offline = ''offline''"
| "typeName Mojang = ''mojang''"
| "typeName Microsoft = ''microsoft''"

record account =
  username :: string
  password :: string
  type :: account_type

record server_config =
  ip :: string
  version :: string
  chatMessages :: "string list"
  repeat :: bool
  repeatDelay :: int

record global_config =
  accounts :: "(string \<times> account) list"
  server :: server_config

definition defaultConfig :: global_config where
  "defaultConfig =
     \<lparr>accounts =
        [(''MC1'', \<lparr>username = ''Bot1'', password = '''', type = Offline\<rparr>),
         (''MC2'', \<lparr>username = ''Bot2'', password = '''', type = Offline\<rparr>),
         (''MC3'', \<lparr>username = ''Bot3'', password = '''', type = Offline\<rparr>),
         (''MC4'', \<lparr>username = ''Bot4'', password = '''', type = Offline\<rparr>)],
      server =
        \<lparr>ip = ''play.pika-network.net'',
         version = ''1.18.1'',
         chatMessages = [''/login password'', ''/server survival'', ''/home base''],
         repeat = True,
         repeatDelay = 6\<rparr>\<rparr>"

text \<open>
  A configuration as the object the script holds, and the document \<^verbatim>\<open>JSON.stringify\<close>
  writes for it.
\<close>

definition accountJson :: "account \<Rightarrow> jsvalue" where
  "accountJson a =
     JObj [(''username'', JStr (username a)),
           (''password'', JStr (password a)),
           (''type'', JStr (typeName (type a)))]"

definition accountsJson :: "(string \<times> account) list \<Rightarrow> jsvalue" where
  "accountsJson as = JObj (map (\<lambda>(botName, a). (botName, accountJson a)) as)"

definition serverJson :: "server_config \<Rightarrow> jsvalue" where
  "serverJson c =
     JObj [(''ip'', JStr (ip c)),
           (''version'', JStr (version c)),
           (''chatMessages'', JArr (map JStr (chatMessages c))),
           (''repeat'', JBool (repeat c)),
           (''repeatDelay'', JNum (toNumber (of_int (repeatDelay c))))]"

definition configObject :: "global_config \<Rightarrow> jsvalue" where
  "configObject c =
     JObj [(''accounts'', accountsJson (accounts c)), (''server'', serverJson (server c))]"

definition configJson :: "global_config \<Rightarrow> json" where
  "configJson c = JSON_stringify (configObject c)"

text \<open>
  The five assignments of \<^verbatim>\<open>updateBotSettings\<close> on a parsed settings document, in the
  order of the source; the first that throws ends them. The server configuration is the
  object \<^verbatim>\<open>saveConfig\<close> builds: two strings, the list of message lines, a boolean and the
  number \<^verbatim>\<open>parseInt\<close> read for an integer.
\<close>

definition applyServerConfig :: "server_config \<Rightarrow> jsvalue \<Rightarrow> exn + jsvalue" where
  "applyServerConfig serverConfig settings =
     bindE (assignProp settings [''server''] ''ip'' (JStr (ip serverConfig))) (\<lambda>s1.
     bindE (assignProp s1 [''server''] ''version'' (JStr (version serverConfig))) (\<lambda>s2.
     bindE (assignProp s2 [''utils'', ''chat-messages''] ''messages''
              (JArr (map JStr (chatMessages serverConfig)))) (\<lambda>s3.
     bindE (assignProp s3 [''utils'', ''chat-messages''] ''repeat''
              (JBool (repeat serverConfig))) (\<lambda>s4.
     assignProp s4 [''utils'', ''chat-messages''] ''repeat-delay''
              (JNum (toNumber (of_int (repeatDelay serverConfig))))))))"




section \<open>The page, the disk and the timers\<close>

datatype bot_status = Stopped | Installing | Running

datatype log_type = Info | Warning | Error | Success

text \<open>
  The handle \<^verbatim>\<open>shell.Exec\<close> returns stands for an external process: \<open>exitsAt\<close> is the
  time at which the process ends (\<open>None\<close>: it never does) and \<open>ExitCode\<close> the code it
  ends with. \<^verbatim>\<open>exec.Status\<close> is 0 while the process runs and 1 once it has ended.
\<close>

record exec =
  exitsAt :: "nat option"
  ExitCode :: int

definition Status :: "exec \<Rightarrow> nat \<Rightarrow> int" where
  "Status e t = (case exitsAt e of None \<Rightarrow> 0 | Some x \<Rightarrow> if x \<le> t then 1 else 0)"

text \<open>
  The function values of the script, named. \<open>InstallAllCallback k\<close> is the completion
  function \<^verbatim>\<open>installAll\<close> hands to \<^verbatim>\<open>installBot\<close>; \<open>k\<close> is the cell of the counter
  \<^verbatim>\<open>completed\<close> that call of \<^verbatim>\<open>installAll\<close> created. The tasks are the functions given
  to \<^verbatim>\<open>setTimeout\<close> and \<^verbatim>\<open>setInterval\<close>: the delayed \<^verbatim>\<open>installBot\<close> and \<^verbatim>\<open>startBot\<close> calls
  of the batch operations, the polling function of \<^verbatim>\<open>installBot\<close>, and the delayed
  announcement that all installations are complete.
\<close>

datatype callback = InstallAllCallback nat

datatype task =
    InstallTimer string callback
  | CheckInstall string exec "callback option"
  | AllInstalled
  | StartTimer string

record timer =
  tid :: nat
  due :: nat
  period :: "nat option"
  handler :: task

text \<open>
  The state the script works on. \<open>now\<close> is the clock in milliseconds. \<open>folders\<close> and
  \<open>files\<close> are the disk. \<open>runningProcesses\<close> is the script's object of that name.
  \<open>statusIndicator\<close> gives, for each bot that has a card on the page, the status class of
  its indicator element. \<open>logs\<close> is the log container: time stamp, message and type of
  each entry. \<open>launched\<close> lists the commands handed to the shell. \<open>timers\<close> are the pending
  timeouts and intervals. \<open>completed\<close> holds the counters of the \<^verbatim>\<open>installAll\<close> calls.
  \<open>progressBarShown\<close> and \<open>progressFill\<close> are the progress bar and its percentage,
  \<open>alerts\<close> the dialogs shown. The page is taken to have its log container and its
  progress bar; its form inputs are not part of the state.
\<close>

record state =
  currentDir :: string
  now :: nat
  folders :: "string set"
  files :: "string \<Rightarrow> content option"
  runningProcesses :: "string \<Rightarrow> bool option"
  statusIndicator :: "string \<Rightarrow> bot_status option"
  logs :: "(nat \<times> string \<times> log_type) list"
  launched :: "string list"
  timers :: "timer list"
  nextTimer :: nat
  completed :: "nat \<Rightarrow> nat"
  nextCell :: nat
  progressBarShown :: bool
  progressFill :: nat
  alerts :: "string list"

text \<open>
  What the host does when the script calls the shell. \<^verbatim>\<open>shell.Run(cmd, style, false)\<close>
  either raises or starts the command and returns at once; the flag of \<open>Launched\<close> says
  whether the command then does its work, which the script never learns.
  \<^verbatim>\<open>shell.Exec(cmd)\<close> either raises or returns the handle of the process.
\<close>

datatype run_outcome = RunRaised string | Launched bool

datatype exec_outcome = ExecRaised string | ExecStarted exec

record env =
  Run :: "nat \<Rightarrow> string \<Rightarrow> run_outcome"
  Exec :: "nat \<Rightarrow> string \<Rightarrow> exec_outcome"

definition botNames :: "string list" where
  "botNames = [''MC1'', ''MC2'', ''MC3'', ''MC4'']"

definition bs :: string where
  "bs = [CHR 0x5C]"

definition dq :: string where
  "dq = [CHR 0x22]"

function decimal :: "nat \<Rightarrow> string" where
  "decimal n =
     (if n < 10 then [char_of (48 + n)]
      else decimal (n div 10) @ [char_of (48 + n mod 10)])"
  by pat_completeness auto
termination
  by (relation "measure id") auto

definition showInt :: "int \<Rightarrow> string" where
  "showInt i = (if i < 0 then ''-'' @ decimal (nat (- i)) else decimal (nat i))"

definition logMessage :: "string \<Rightarrow> log_type \<Rightarrow> state \<Rightarrow> state" where
  "logMessage msg ty s = s\<lparr>logs := logs s @ [(now s, msg, ty)]\<rparr>"

definition updateStatus :: "string \<Rightarrow> bot_status \<Rightarrow> state \<Rightarrow> state" where
  "updateStatus botName status s =
     (if statusIndicator s botName \<noteq> None
      then s\<lparr>statusIndicator := (statusIndicator s)(botName \<mapsto> status)\<rparr>
      else s)"

definition alert :: "string \<Rightarrow> state \<Rightarrow> state" where
  "alert msg s = s\<lparr>alerts := alerts s @ [msg]\<rparr>"

definition setTimeout :: "task \<Rightarrow> nat \<Rightarrow> state \<Rightarrow> state" where
  "setTimeout f delay s =
     s\<lparr>timers := timers s @ [\<lparr>tid = nextTimer s, due = now s + delay, period = None, handler = f\<rparr>],
       nextTimer := nextTimer s + 1\<rparr>"

definition setInterval :: "task \<Rightarrow> nat \<Rightarrow> state \<Rightarrow> state" where
  "setInterval f delay s =
     s\<lparr>timers := timers s @ [\<lparr>tid = nextTimer s, due = now s + delay, period = Some delay, handler = f\<rparr>],
       nextTimer := nextTimer s + 1\<rparr>"

definition clearInterval :: "nat \<Rightarrow> state \<Rightarrow> state" where
  "clearInterval i s = s\<lparr>timers := filter (\<lambda>t. tid t \<noteq> i) (timers s)\<rparr>"

section \<open>The configuration store\<close>

text \<open>
  \<^verbatim>\<open>renderBotConfigs(accounts)\<close> empties the container of the cards, and with it every
  status indicator, and then makes one card per enumerated key of \<open>accounts\<close>, each
  with an indicator of class \<^verbatim>\<open>status-stopped\<close>. Reading \<^verbatim>\<open>account.type\<close> throws when
  the account is \<^verbatim>\<open>null\<close>; the cards made before stay. The result is the page and the
  exception, if one was thrown.
\<close>

definition entries :: "jsvalue option \<Rightarrow> (string \<times> jsvalue) list" where
  "entries v =
     (case v of
        Some (JObj kvs) \<Rightarrow> kvs
      | Some (JArr xs) \<Rightarrow> zip (map decimal [0..<length xs]) xs
      | Some (JStr cs) \<Rightarrow> zip (map decimal [0..<length cs]) (map (\<lambda>c. JStr [c]) cs)
      | _ \<Rightarrow> [])"

fun renderCards :: "(string \<times> jsvalue) list \<Rightarrow> state \<Rightarrow> state \<times> exn option" where
  "renderCards [] s = (s, None)"
| "renderCards ((botName, account) # rest) s =
     (if account = JNull then (s, Some TypeError)
      else renderCards rest (s\<lparr>statusIndicator := (statusIndicator s)(botName \<mapsto> Stopped)\<rparr>))"

definition renderBotConfigs :: "jsvalue option \<Rightarrow> state \<Rightarrow> state \<times> exn option" where
  "renderBotConfigs accs s = renderCards (entries accs) (s\<lparr>statusIndicator := Map.empty\<rparr>)"

text \<open>
  \<^verbatim>\<open>createDefaultConfig\<close>: the default document is written to \<^verbatim>\<open>global_config.json\<close>,
  the cards are rendered, the server form is filled (\<^verbatim>\<open>loadServerConfigFromData\<close>
  touches form inputs only) and the success is logged. Writing a file and reading an
  existing one are taken to succeed.
\<close>

definition configPath :: "state \<Rightarrow> string" where
  "configPath s = currentDir s @ bs @ ''global_config.json''"

definition createDefaultConfig :: "state \<Rightarrow> state" where
  "createDefaultConfig s =
     (let s1 = s\<lparr>files := (files s)(configPath s \<mapsto> Json (configJson defaultConfig))\<rparr>
      in case renderBotConfigs (Some (accountsJson (accounts defaultConfig))) s1 of
           (s2, Some e) \<Rightarrow> logMessage (''Error creating config: '' @ message e) Error s2
         | (s2, None) \<Rightarrow> logMessage ''Default configuration created!'' Success s2)"

definition loadConfig :: "state \<Rightarrow> state" where
  "loadConfig s =
     (let s1 = logMessage (''Loading configuration from: '' @ configPath s) Info s
      in case files s1 (configPath s) of
           None \<Rightarrow>
             createDefaultConfig (logMessage ''Config file not found, creating default...'' Warning s1)
         | Some NotJson \<Rightarrow> logMessage (''Error loading config: '' @ message SyntaxError) Error s1
         | Some (Json content) \<Rightarrow>
             (if JSON_parse content = JNull
              then logMessage (''Error loading config: '' @ message TypeError) Error s1
              else case renderBotConfigs (getPath (JSON_parse content) [''accounts'']) s1 of
                     (s2, Some e) \<Rightarrow> logMessage (''Error loading config: '' @ message e) Error s2
                   | (s2, None) \<Rightarrow> logMessage ''Configuration loaded successfully!'' Success s2))"

text \<open>
  One round of the loop of \<^verbatim>\<open>updateBotSettings\<close>, for one bot: a bot without a
  \<^verbatim>\<open>settings.json\<close> is passed over by \<^verbatim>\<open>continue\<close>; otherwise the file is read and
  parsed, the five assignments are made and the document is written back. An exception
  is caught inside the round and logged, and the file is left as it was.
\<close>

definition settingsPath :: "state \<Rightarrow> string \<Rightarrow> string" where
  "settingsPath s botName = currentDir s @ bs @ botName @ bs @ ''settings.json''"

definition updateBotSettingsFor :: "server_config \<Rightarrow> state \<Rightarrow> string \<Rightarrow> state" where
  "updateBotSettingsFor serverConfig s botName =
     (case files s (settingsPath s botName) of
        None \<Rightarrow> s
      | Some NotJson \<Rightarrow>
          logMessage (botName @ '': Error updating settings - '' @ message SyntaxError) Error s
      | Some (Json content) \<Rightarrow>
          (case applyServerConfig serverConfig (JSON_parse content) of
             Inl e \<Rightarrow> logMessage (botName @ '': Error updating settings - '' @ message e) Error s
           | Inr settings \<Rightarrow>
               logMessage (botName @ '': Settings updated'') Success
                 (s\<lparr>files := (files s)(settingsPath s botName \<mapsto> Json (JSON_stringify settings))\<rparr>)))"

definition updateBotSettings :: "server_config \<Rightarrow> state \<Rightarrow> state" where
  "updateBotSettings serverConfig s = foldl (updateBotSettingsFor serverConfig) s botNames"

section \<open>The process supervisor\<close>

definition botPath :: "state \<Rightarrow> string \<Rightarrow> string" where
  "botPath s botName = currentDir s @ bs @ botName"

text \<open>The command lines the script hands to the shell.\<close>

definition installCommand :: "string \<Rightarrow> string" where
  "installCommand path = ''cmd.exe /c '' @ ''cd /d '' @ dq @ path @ dq @ '' && npm install''"

definition startCommand :: "string \<Rightarrow> string \<Rightarrow> string" where
  "startCommand botName path =
     ''start '' @ dq @ botName @ '' Bot'' @ dq @ '' cmd /k '' @ dq @ ''cd /d '' @ path
       @ '' && npm start'' @ dq"

definition stopCommand :: "string \<Rightarrow> string" where
  "stopCommand botName =
     ''cmd.exe /c '' @ ''taskkill /FI '' @ dq @ ''WINDOWTITLE eq '' @ botName @ '' Bot*'' @ dq @ '' /F''"

text \<open>
  The completion function of \<^verbatim>\<open>installAll\<close>: it counts, shows the percentage, and when
  the count equals the number of bots it schedules the announcement one second later.
  \<^verbatim>\<open>Math.round\<close> rounds half up.
\<close>

definition percentOf :: "nat \<Rightarrow> nat" where
  "percentOf c = nat \<lfloor>real c / real (length botNames) * 100 + 1 / 2\<rfloor>"

definition completionCallback :: "nat \<Rightarrow> state \<Rightarrow> state" where
  "completionCallback k s =
     (let c = completed s k + 1;
          s1 = s\<lparr>completed := (completed s)(k := c), progressFill := percentOf c\<rparr>
      in if c = length botNames then setTimeout AllInstalled 1000 s1 else s1)"

text \<open>\<^verbatim>\<open>if (callback) callback();\<close>\<close>

definition call :: "callback option \<Rightarrow> state \<Rightarrow> state" where
  "call cb s = (case cb of None \<Rightarrow> s | Some (InstallAllCallback k) \<Rightarrow> completionCallback k s)"

definition installBot :: "env \<Rightarrow> string \<Rightarrow> callback option \<Rightarrow> state \<Rightarrow> state" where
  "installBot env botName cb s =
     (if botPath s botName \<notin> folders s
      then call cb (logMessage (botName @ '': Folder not found!'') Error s)
      else if files s (botPath s botName @ bs @ ''package.json'') = None
      then call cb (logMessage (botName @ '': package.json not found!'') Error s)
      else
        let s1 = logMessage (botName @ '': Installing dependencies...'') Info
                   (updateStatus botName Installing s)
        in case Exec env (now s) (installCommand (botPath s botName)) of
             ExecRaised m \<Rightarrow>
               call cb (updateStatus botName Stopped
                 (logMessage (botName @ '': Installation error - '' @ m) Error s1))
           | ExecStarted e \<Rightarrow>
               setInterval (CheckInstall botName e cb) 500
                 (s1\<lparr>launched := launched s1 @ [installCommand (botPath s botName)]\<rparr>))"

text \<open>
  The polling function of \<^verbatim>\<open>installBot\<close>, run every 500 ms; \<open>checkInterval\<close> is the
  identifier of its own interval.
\<close>

definition checkInstall :: "string \<Rightarrow> exec \<Rightarrow> callback option \<Rightarrow> nat \<Rightarrow> state \<Rightarrow> state" where
  "checkInstall botName e cb checkInterval s =
     (if Status e (now s) = 1
      then
        let s1 = clearInterval checkInterval s;
            exitCode = ExitCode e;
            s2 = (if exitCode = 0
                  then updateStatus botName Stopped
                         (logMessage (botName @ '': Dependencies installed successfully!'') Success s1)
                  else updateStatus botName Stopped
                         (logMessage (botName @ '': Installation failed with exit code '' @ showInt exitCode)
                            Error s1))
        in call cb s2
      else s)"

definition startBot :: "env \<Rightarrow> string \<Rightarrow> state \<Rightarrow> state" where
  "startBot env botName s =
     (if botPath s botName \<notin> folders s
      then logMessage (botName @ '': Folder not found!'') Error s
      else if runningProcesses s botName = Some True
      then logMessage (botName @ '': Bot is already running!'') Warning s
      else
        let s1 = logMessage (botName @ '': Starting bot...'') Info s
        in case Run env (now s) (startCommand botName (botPath s botName)) of
             RunRaised m \<Rightarrow> logMessage (botName @ '': Start error - '' @ m) Error s1
           | Launched ok \<Rightarrow>
               logMessage (botName @ '': Bot started in new window!'') Success
                 (updateStatus botName Running
                   (s1\<lparr>launched := launched s1 @ [startCommand botName (botPath s botName)],
                       runningProcesses := (runningProcesses s1)(botName \<mapsto> True)\<rparr>)))"

definition stopBot :: "env \<Rightarrow> string \<Rightarrow> state \<Rightarrow> state" where
  "stopBot env botName s =
     (let s1 = logMessage (botName @ '': Stopping bot...'') Warning s
      in case Run env (now s) (stopCommand botName) of
           RunRaised m \<Rightarrow> logMessage (botName @ '': Stop error - '' @ m) Error s1
         | Launched ok \<Rightarrow>
             logMessage (botName @ '': Bot stopped!'') Success
               (updateStatus botName Stopped
                 (s1\<lparr>launched := launched s1 @ [stopCommand botName],
                     runningProcesses := (runningProcesses s1)(botName \<mapsto> False)\<rparr>)))"

section \<open>The batch operations\<close>

definition installAll :: "state \<Rightarrow> state" where
  "installAll s =
     (let s1 = logMessage ''Starting installation for all bots...'' Info
                 (s\<lparr>progressBarShown := True, progressFill := 0\<rparr>);
          k = nextCell s1;
          s2 = s1\<lparr>completed := (completed s1)(k := 0), nextCell := k + 1\<rparr>
      in foldl (\<lambda>st index.
                  setTimeout (InstallTimer (botNames ! index) (InstallAllCallback k)) (index * 1000) st)
           s2 [0..<length botNames])"

definition startAllBots :: "state \<Rightarrow> state" where
  "startAllBots s =
     foldl (\<lambda>st index. setTimeout (StartTimer (botNames ! index)) (index * 500) st)
       (logMessage ''Starting all bots...'' Info s) [0..<length botNames]"

definition stopAllBots :: "env \<Rightarrow> state \<Rightarrow> state" where
  "stopAllBots env s =
     foldl (\<lambda>st i. stopBot env (botNames ! i) st)
       (logMessage ''Stopping all bots...'' Warning s) [0..<length botNames]"

definition allInstalled :: "state \<Rightarrow> state" where
  "allInstalled s =
     alert ''All dependencies installed successfully!''
       (logMessage ''All installations completed!'' Success (s\<lparr>progressBarShown := False\<rparr>))"

section \<open>The timers at work\<close>

text \<open>
  A pending timer fires when it is due: the earliest one first, and of two due at the
  same time the one set first. The clock then stands at the due time of the timer, a
  timeout is used up, an interval is due again one period later, and the function
  runs; the functions themselves take no time.
\<close>

definition runTask :: "env \<Rightarrow> nat \<Rightarrow> task \<Rightarrow> state \<Rightarrow> state" where
  "runTask env i f s =
     (case f of
        InstallTimer botName cb \<Rightarrow> installBot env botName (Some cb) s
      | CheckInstall botName e cb \<Rightarrow> checkInstall botName e cb i s
      | AllInstalled \<Rightarrow> allInstalled s
      | StartTimer botName \<Rightarrow> startBot env botName s)"

definition earlier :: "timer \<Rightarrow> timer \<Rightarrow> bool" where
  "earlier a b = (due a < due b \<or> (due a = due b \<and> tid a \<le> tid b))"

fun pick :: "timer list \<Rightarrow> timer option" where
  "pick [] = None"
| "pick (t # ts) =
     (case pick ts of None \<Rightarrow> Some t | Some u \<Rightarrow> if earlier t u then Some t else Some u)"

definition rearm :: "timer \<Rightarrow> timer list \<Rightarrow> timer list" where
  "rearm t ts =
     (case period t of
        None \<Rightarrow> filter (\<lambda>u. tid u \<noteq> tid t) ts
      | Some p \<Rightarrow> map (\<lambda>u. if tid u = tid t then u\<lparr>due := due u + p\<rparr> else u) ts)"

definition fire :: "env \<Rightarrow> state \<Rightarrow> state option" where
  "fire env s =
     (case pick (timers s) of
        None \<Rightarrow> None
      | Some t \<Rightarrow>
          Some (runTask env (tid t) (handler t)
                  (s\<lparr>now := max (now s) (due t), timers := rearm t (timers s)\<rparr>)))"

fun run :: "nat \<Rightarrow> env \<Rightarrow> state \<Rightarrow> state" where
  "run 0 env s = s"
| "run (Suc n) env s = (case fire env s of None \<Rightarrow> s | Some s' \<Rightarrow> run n env s')"

section \<open>Observing a batch installation\<close>

text \<open>
  The firings of the first \<open>m\<close> rounds of the timers: for each round the clock at which
  the timer fires and the function it runs.
\<close>

fun firings :: "nat \<Rightarrow> env \<Rightarrow> state \<Rightarrow> (nat \<times> task) list" where
  "firings 0 env s = []"
| "firings (Suc m) env s =
     (case pick (timers s) of
        None \<Rightarrow> []
      | Some t \<Rightarrow>
          (max (now s) (due t), handler t)
            # (case fire env s of None \<Rightarrow> [] | Some s' \<Rightarrow> firings m env s'))"

text \<open>
  A host on which every install process that starts satisfies \<open>P\<close>; with \<open>P\<close> the
  property of ending at some time, a host on which every install ends.
\<close>

definition startsOnly :: "env \<Rightarrow> (exec \<Rightarrow> bool) \<Rightarrow> bool" where
  "startsOnly env P = (\<forall>t cmd e. Exec env t cmd = ExecStarted e \<longrightarrow> P e)"

definition installsEnd :: "env \<Rightarrow> bool" where
  "installsEnd env = startsOnly env (\<lambda>e. exitsAt e \<noteq> None)"

text \<open>
  The install of bot \<open>b\<close> hangs on a host when the bot has its folder and its
  \<^verbatim>\<open>package.json\<close> and the shell, whenever asked, starts an install process for it that
  never ends. A pending timer awaits that install for the counter in cell \<open>k\<close> when it is
  the delayed install of \<open>b\<close> or the polling of such a process.
\<close>

definition hangs :: "env \<Rightarrow> state \<Rightarrow> string \<Rightarrow> bool" where
  "hangs env s b =
     (botPath s b \<in> folders s \<and> files s (botPath s b @ bs @ ''package.json'') \<noteq> None
      \<and> (\<forall>t. \<exists>e. Exec env t (installCommand (botPath s b)) = ExecStarted e \<and> exitsAt e = None))"

definition awaits :: "nat \<Rightarrow> string \<Rightarrow> timer \<Rightarrow> bool" where
  "awaits k b t =
     (case handler t of
        InstallTimer b' cb \<Rightarrow> b' = b \<and> cb = InstallAllCallback k
      | CheckInstall b' e cb \<Rightarrow> b' = b \<and> cb = Some (InstallAllCallback k) \<and> exitsAt e = None
      | _ \<Rightarrow> False)"

text \<open>
  The bookkeeping of one \<^verbatim>\<open>installAll\<close> call whose counter is cell \<open>k\<close>. A pending timer
  \<^emph>\<open>reports\<close> when it still owes one call of the completion function: the delayed
  \<^verbatim>\<open>installBot\<close> call, or the polling of a started install. It \<^emph>\<open>announces\<close> when it is
  the delayed announcement. \<open>pending\<close> and \<open>announcing\<close> count the timers of each kind.
\<close>

definition reports :: "nat \<Rightarrow> timer \<Rightarrow> nat" where
  "reports k t =
     (case handler t of
        InstallTimer b cb \<Rightarrow> if cb = InstallAllCallback k then 1 else 0
      | CheckInstall b e cb \<Rightarrow> if cb = Some (InstallAllCallback k) then 1 else 0
      | _ \<Rightarrow> 0)"

definition announces :: "timer \<Rightarrow> nat" where
  "announces t = (if handler t = AllInstalled then 1 else 0)"

definition pending :: "nat \<Rightarrow> timer list \<Rightarrow> nat" where
  "pending k ts = sum_list (map (reports k) ts)"

definition announcing :: "timer list \<Rightarrow> nat" where
  "announcing ts = sum_list (map announces ts)"

definition announcement :: string where
  "announcement = ''All dependencies installed successfully!''"

text \<open>
  The invariant of the batch started at time \<open>t0\<close> with the alerts \<open>as0\<close> on the page:
  timer identifiers are distinct and below \<open>nextTimer\<close>; no timer is overdue; the delayed
  install of bot \<open>i\<close> is due at \<open>t0 + i * 1000\<close>; the counter plus the timers that still
  report (plus \<open>n\<close> reports in flight) is the number of bots; the announcement is pending
  or shown (or in flight, \<open>a\<close>) only when the counter has reached the number of bots;
  the progress bar is shown until the announcement, with the percentage of the counter.
\<close>

definition timerOk :: "(exec \<Rightarrow> bool) \<Rightarrow> nat \<Rightarrow> nat \<Rightarrow> timer \<Rightarrow> bool" where
  "timerOk P k t0 t =
     (case handler t of
        InstallTimer b cb \<Rightarrow>
          cb = InstallAllCallback k \<and> period t = None
          \<and> (\<exists>i < length botNames. b = botNames ! i \<and> due t = t0 + i * 1000)
      | CheckInstall b e cb \<Rightarrow> cb = Some (InstallAllCallback k) \<and> period t = Some 500 \<and> P e
      | AllInstalled \<Rightarrow> period t = None
      | StartTimer b \<Rightarrow> False)"

definition batchInv :: "(exec \<Rightarrow> bool) \<Rightarrow> nat \<Rightarrow> nat \<Rightarrow> string list \<Rightarrow> nat \<Rightarrow> nat \<Rightarrow> state \<Rightarrow> bool" where
  "batchInv P k t0 as0 n a s =
     (distinct (map tid (timers s))
      \<and> list_all (\<lambda>t. tid t < nextTimer s \<and> now s \<le> due t \<and> timerOk P k t0 t) (timers s)
      \<and> completed s k + pending k (timers s) + n = length botNames
      \<and> announcing (timers s) + a \<le> (if completed s k = length botNames then 1 else 0)
      \<and> alerts s = as0 @ replicate ((if completed s k = length botNames then 1 else 0)
                                      - (announcing (timers s) + a)) announcement
      \<and> progressBarShown s = (alerts s = as0)
      \<and> progressFill s = percentOf (completed s k))"

text \<open>
  A bound on the rounds a batch still needs: the polls a started install takes until its
  process has ended, one round for each delayed install and announcement.
\<close>

definition ticks :: "exec \<Rightarrow> nat \<Rightarrow> nat" where
  "ticks e u = (case exitsAt e of None \<Rightarrow> 0 | Some x \<Rightarrow> 1 + (x - u + 499) div 500)"

definition weight :: "env \<Rightarrow> string \<Rightarrow> timer \<Rightarrow> nat" where
  "weight env dir t =
     (case handler t of
        InstallTimer b cb \<Rightarrow>
          1 + (case Exec env (due t) (installCommand (dir @ bs @ b)) of
                 ExecStarted e \<Rightarrow> ticks e (due t + 500)
               | ExecRaised m \<Rightarrow> 0)
      | CheckInstall b e cb \<Rightarrow> ticks e (due t)
      | AllInstalled \<Rightarrow> 1
      | StartTimer b \<Rightarrow> 1)"

definition load :: "env \<Rightarrow> string \<Rightarrow> timer list \<Rightarrow> nat" where
  "load env dir ts = sum_list (map (weight env dir) ts)"

definition potential :: "env \<Rightarrow> nat \<Rightarrow> state \<Rightarrow> nat" where
  "potential env k s =
     load env (currentDir s) (timers s) + (if completed s k < length botNames then 1 else 0)"

section \<open>Example states\<close>

text \<open>
  A settings document with keys beyond the ones propagation assigns, and a disk on which
  only \<^verbatim>\<open>MC2\<close> has a folder and a settings document.
\<close>

definition exampleSettings :: json where
  "exampleSettings =
     JObj [(''server'', JObj [(''ip'', JStr ''localhost''), (''version'', JStr ''1.8''), (''port'', JNum 25565)]),
           (''utils'', JObj [(''chat-messages'',
              JObj [(''enabled'', JBool True), (''messages'', JArr []), (''repeat'', JBool False),
                    (''repeat-delay'', JNum 60)])]),
           (''customField'', JNum 42)]"

definition exampleDisk :: state where
  "exampleDisk =
     \<lparr>currentDir = ''C:'', now = 0, folders = {''C:'' @ bs @ ''MC2''},
      files = [''C:'' @ bs @ ''MC2'' @ bs @ ''settings.json'' \<mapsto> Json exampleSettings],
      runningProcesses = Map.empty, statusIndicator = Map.empty, logs = [], launched = [],
      timers = [], nextTimer = 0, completed = (\<lambda>k. 0), nextCell = 0,
      progressBarShown = False, progressFill = 0, alerts = []\<rparr>"



text \<open>
  A page with the four cards on a disk that has the folders of \<^verbatim>\<open>MC1\<close>, \<^verbatim>\<open>MC3\<close> and
  \<^verbatim>\<open>MC4\<close>, with a \<^verbatim>\<open>package.json\<close> in those of \<^verbatim>\<open>MC3\<close> and \<^verbatim>\<open>MC4\<close>. \<^verbatim>\<open>MC1\<close> and \<^verbatim>\<open>MC2\<close> are
  tracked as running (the folder of \<^verbatim>\<open>MC2\<close> has since been removed).
\<close>

definition examplePage :: state where
  "examplePage =
     \<lparr>currentDir = ''C:'', now = 1000,
      folders = {''C:'' @ bs @ ''MC1'', ''C:'' @ bs @ ''MC3'', ''C:'' @ bs @ ''MC4''},
      files = [''C:'' @ bs @ ''MC3'' @ bs @ ''package.json'' \<mapsto> NotJson,
               ''C:'' @ bs @ ''MC4'' @ bs @ ''package.json'' \<mapsto> NotJson],
      runningProcesses = [''MC1'' \<mapsto> True, ''MC2'' \<mapsto> True],
      statusIndicator = [''MC1'' \<mapsto> Running, ''MC2'' \<mapsto> Running, ''MC3'' \<mapsto> Stopped,
                         ''MC4'' \<mapsto> Stopped],
      logs = [], launched = [], timers = [], nextTimer = 0, completed = (\<lambda>k. 0), nextCell = 0,
      progressBarShown = False, progressFill = 0, alerts = []\<rparr>"

text \<open>
  Four hosts. On the first every command starts, and an install ends after 2.7 s with
  code 0, that of \<^verbatim>\<open>MC4\<close> after 0.3 s with code 1. On the second every command starts
  but the kill does not do its work, and an install never ends. On the third the shell
  raises on every call. On the fourth the shell raises for the install of \<^verbatim>\<open>MC3\<close>, and
  every other install ends after 1.2 s with code 1.
\<close>

definition goodHost :: env where
  "goodHost =
     \<lparr>Run = (\<lambda>t cmd. Launched True),
      Exec = (\<lambda>t cmd. if cmd = installCommand (''C:'' @ bs @ ''MC4'')
                        then ExecStarted \<lparr>exitsAt = Some (t + 300), ExitCode = 1\<rparr>
                        else ExecStarted \<lparr>exitsAt = Some (t + 2700), ExitCode = 0\<rparr>)\<rparr>"

definition idleHost :: env where
  "idleHost =
     \<lparr>Run = (\<lambda>t cmd. Launched False),
      Exec = (\<lambda>t cmd. ExecStarted \<lparr>exitsAt = None, ExitCode = 0\<rparr>)\<rparr>"

definition brokenHost :: env where
  "brokenHost =
     \<lparr>Run = (\<lambda>t cmd. RunRaised ''The system cannot find the file specified.''),
      Exec = (\<lambda>t cmd. ExecRaised ''The system cannot find the file specified.'')\<rparr>"

definition mixedHost :: env where
  "mixedHost =
     \<lparr>Run = (\<lambda>t cmd. Launched True),
      Exec = (\<lambda>t cmd. if cmd = installCommand (''C:'' @ bs @ ''MC3'')
                        then ExecRaised ''Access is denied.''
                        else ExecStarted \<lparr>exitsAt = Some (t + 1200), ExitCode = 1\<rparr>)\<rparr>"

section \<open>Properties of the chart smoothing\<close>

lemma smoothLoop_length:
  "i \<le> length data - 1 \<Longrightarrow> length sm = i \<Longrightarrow>
   length (smoothLoop f data i sm) = length data - 1"
proof (induction f data i sm rule: smoothLoop.induct)
  case (1 f data i sm)
  show ?case
  proof (cases "i < length data - 1")
    case True
    then show ?thesis
      using "1.IH" [OF True refl refl refl] "1.prems"
      by (simp add: Let_def)
  next
    case False
    then show ?thesis using "1.prems" by simp
  qed
qed

lemma smoothLoop_hd:
  "sm \<noteq> [] \<Longrightarrow> hd (smoothLoop f data i sm) = hd sm"
proof (induction f data i sm rule: smoothLoop.induct)
  case (1 f data i sm)
  show ?case
  proof (cases "i < length data - 1")
    case True
    then show ?thesis
      using "1.IH" [OF True refl refl refl] "1.prems"
      by (simp add: Let_def)
  next
    case False
    then show ?thesis by simp
  qed
qed


lemma smoothLoop_start:
  "2 < length xs \<Longrightarrow> length (smoothLoop f xs 1 [xs ! 0]) = length xs - 1
     \<and> hd (smoothLoop f xs 1 [xs ! 0]) = hd xs"
  using smoothLoop_length [of 1 xs "[xs ! 0]" f] smoothLoop_hd [of "[xs ! 0]" f xs 1]
  by (cases xs) auto

text \<open>
  Claim C10. \<^verbatim>\<open>smoothChartData\<close> returns a list as long as its input, with the same
  first and last element; an input of at most two elements, and an absent input, come
  back unchanged, whatever the smoothing factor.
\<close>

theorem smoothChartData_shape:
  "smoothChartData None f = None
   \<and> (\<exists>ys. smoothChartData (Some xs) f = Some ys \<and> length ys = length xs
          \<and> (xs \<noteq> [] \<longrightarrow> hd ys = hd xs \<and> last ys = last xs))
   \<and> (length xs \<le> 2 \<longrightarrow> smoothChartData (Some xs) f = Some xs)"
proof (cases "length xs \<le> 2")
  case True
  then show ?thesis
    by (simp add: smoothChartData_def)
next
  case False
  then have long: "2 < length xs" by simp
  then have ne: "xs \<noteq> []" by auto
  let ?sm = "smoothLoop f xs 1 [xs ! 0]"
  from smoothLoop_start [OF long, of f] have len: "length ?sm = length xs - 1" and hd: "hd ?sm = hd xs"
    by simp_all
  from len long have "?sm \<noteq> []" by auto
  with hd have "hd (?sm @ [xs ! (length xs - 1)]) = hd xs" by simp
  moreover have "last (?sm @ [xs ! (length xs - 1)]) = last xs"
    using ne by (simp add: last_conv_nth)
  moreover have "length (?sm @ [xs ! (length xs - 1)]) = length xs"
    using len long by simp
  ultimately show ?thesis
    using False by (simp add: smoothChartData_def)
qed

theorem smoothChartData_shape_witness:
  "smoothChartData (Some [10, 20, 40, 30]) (1 / 5) = Some [10, 12, 88 / 5, 30]
   \<and> smoothChartData (Some [7, 9]) (1 / 5) = Some [7, 9]
   \<and> (\<exists>ys. smoothChartData (Some [10, 20, 40, 30]) (1 / 5) = Some ys \<and> length ys = 4
          \<and> hd ys = 10 \<and> last ys = 30)"
  using smoothChartData_shape [of "1 / 5" "[10, 20, 40, 30]"]
  by (simp add: smoothChartData_def)

section \<open>The basic operations, field by field\<close>

lemma logMessage_fields [simp]:
  "currentDir (logMessage m ty s) = currentDir s"
  "now (logMessage m ty s) = now s"
  "folders (logMessage m ty s) = folders s"
  "files (logMessage m ty s) = files s"
  "runningProcesses (logMessage m ty s) = runningProcesses s"
  "statusIndicator (logMessage m ty s) = statusIndicator s"
  "logs (logMessage m ty s) = logs s @ [(now s, m, ty)]"
  "launched (logMessage m ty s) = launched s"
  "timers (logMessage m ty s) = timers s"
  "nextTimer (logMessage m ty s) = nextTimer s"
  "completed (logMessage m ty s) = completed s"
  "nextCell (logMessage m ty s) = nextCell s"
  "progressBarShown (logMessage m ty s) = progressBarShown s"
  "progressFill (logMessage m ty s) = progressFill s"
  "alerts (logMessage m ty s) = alerts s"
  by (simp_all add: logMessage_def)

lemma alert_fields [simp]:
  "currentDir (alert m s) = currentDir s"
  "now (alert m s) = now s"
  "folders (alert m s) = folders s"
  "files (alert m s) = files s"
  "runningProcesses (alert m s) = runningProcesses s"
  "statusIndicator (alert m s) = statusIndicator s"
  "logs (alert m s) = logs s"
  "launched (alert m s) = launched s"
  "timers (alert m s) = timers s"
  "nextTimer (alert m s) = nextTimer s"
  "completed (alert m s) = completed s"
  "nextCell (alert m s) = nextCell s"
  "progressBarShown (alert m s) = progressBarShown s"
  "progressFill (alert m s) = progressFill s"
  "alerts (alert m s) = alerts s @ [m]"
  by (simp_all add: alert_def)

lemma setTimeout_fields [simp]:
  "currentDir (setTimeout f d s) = currentDir s"
  "now (setTimeout f d s) = now s"
  "folders (setTimeout f d s) = folders s"
  "files (setTimeout f d s) = files s"
  "runningProcesses (setTimeout f d s) = runningProcesses s"
  "statusIndicator (setTimeout f d s) = statusIndicator s"
  "logs (setTimeout f d s) = logs s"
  "launched (setTimeout f d s) = launched s"
  "timers (setTimeout f d s) = timers s @ [\<lparr>tid = nextTimer s, due = now s + d, period = None, handler = f\<rparr>]"
  "nextTimer (setTimeout f d s) = nextTimer s + 1"
  "completed (setTimeout f d s) = completed s"
  "nextCell (setTimeout f d s) = nextCell s"
  "progressBarShown (setTimeout f d s) = progressBarShown s"
  "progressFill (setTimeout f d s) = progressFill s"
  "alerts (setTimeout f d s) = alerts s"
  by (simp_all add: setTimeout_def)

lemma setInterval_fields [simp]:
  "currentDir (setInterval f d s) = currentDir s"
  "now (setInterval f d s) = now s"
  "folders (setInterval f d s) = folders s"
  "files (setInterval f d s) = files s"
  "runningProcesses (setInterval f d s) = runningProcesses s"
  "statusIndicator (setInterval f d s) = statusIndicator s"
  "logs (setInterval f d s) = logs s"
  "launched (setInterval f d s) = launched s"
  "timers (setInterval f d s) = timers s @ [\<lparr>tid = nextTimer s, due = now s + d, period = Some d, handler = f\<rparr>]"
  "nextTimer (setInterval f d s) = nextTimer s + 1"
  "completed (setInterval f d s) = completed s"
  "nextCell (setInterval f d s) = nextCell s"
  "progressBarShown (setInterval f d s) = progressBarShown s"
  "progressFill (setInterval f d s) = progressFill s"
  "alerts (setInterval f d s) = alerts s"
  by (simp_all add: setInterval_def)

lemma clearInterval_fields [simp]:
  "currentDir (clearInterval i s) = currentDir s"
  "now (clearInterval i s) = now s"
  "folders (clearInterval i s) = folders s"
  "files (clearInterval i s) = files s"
  "runningProcesses (clearInterval i s) = runningProcesses s"
  "statusIndicator (clearInterval i s) = statusIndicator s"
  "logs (clearInterval i s) = logs s"
  "launched (clearInterval i s) = launched s"
  "timers (clearInterval i s) = filter (\<lambda>t. tid t \<noteq> i) (timers s)"
  "nextTimer (clearInterval i s) = nextTimer s"
  "completed (clearInterval i s) = completed s"
  "nextCell (clearInterval i s) = nextCell s"
  "progressBarShown (clearInterval i s) = progressBarShown s"
  "progressFill (clearInterval i s) = progressFill s"
  "alerts (clearInterval i s) = alerts s"
  by (simp_all add: clearInterval_def)

lemma updateStatus_fields [simp]:
  "currentDir (updateStatus b st s) = currentDir s"
  "now (updateStatus b st s) = now s"
  "folders (updateStatus b st s) = folders s"
  "files (updateStatus b st s) = files s"
  "runningProcesses (updateStatus b st s) = runningProcesses s"
  "statusIndicator (updateStatus b st s) = (if statusIndicator s b \<noteq> None then (statusIndicator s)(b \<mapsto> st) else statusIndicator s)"
  "logs (updateStatus b st s) = logs s"
  "launched (updateStatus b st s) = launched s"
  "timers (updateStatus b st s) = timers s"
  "nextTimer (updateStatus b st s) = nextTimer s"
  "completed (updateStatus b st s) = completed s"
  "nextCell (updateStatus b st s) = nextCell s"
  "progressBarShown (updateStatus b st s) = progressBarShown s"
  "progressFill (updateStatus b st s) = progressFill s"
  "alerts (updateStatus b st s) = alerts s"
  by (simp_all add: updateStatus_def)

lemma completionCallback_fields [simp]:
  "currentDir (completionCallback k s) = currentDir s"
  "now (completionCallback k s) = now s"
  "folders (completionCallback k s) = folders s"
  "files (completionCallback k s) = files s"
  "runningProcesses (completionCallback k s) = runningProcesses s"
  "statusIndicator (completionCallback k s) = statusIndicator s"
  "logs (completionCallback k s) = logs s"
  "launched (completionCallback k s) = launched s"
  "timers (completionCallback k s)
     = timers s @ (if completed s k + 1 = length botNames
                   then [\<lparr>tid = nextTimer s, due = now s + 1000, period = None, handler = AllInstalled\<rparr>]
                   else [])"
  "nextTimer (completionCallback k s)
     = nextTimer s + (if completed s k + 1 = length botNames then 1 else 0)"
  "completed (completionCallback k s) = (completed s)(k := completed s k + 1)"
  "nextCell (completionCallback k s) = nextCell s"
  "progressBarShown (completionCallback k s) = progressBarShown s"
  "progressFill (completionCallback k s) = percentOf (completed s k + 1)"
  "alerts (completionCallback k s) = alerts s"
  by (simp_all add: completionCallback_def Let_def)

lemma allInstalled_fields [simp]:
  "currentDir (allInstalled s) = currentDir s"
  "now (allInstalled s) = now s"
  "folders (allInstalled s) = folders s"
  "files (allInstalled s) = files s"
  "runningProcesses (allInstalled s) = runningProcesses s"
  "statusIndicator (allInstalled s) = statusIndicator s"
  "logs (allInstalled s) = logs s @ [(now s, ''All installations completed!'', Success)]"
  "launched (allInstalled s) = launched s"
  "timers (allInstalled s) = timers s"
  "nextTimer (allInstalled s) = nextTimer s"
  "completed (allInstalled s) = completed s"
  "nextCell (allInstalled s) = nextCell s"
  "progressBarShown (allInstalled s) = False"
  "progressFill (allInstalled s) = progressFill s"
  "alerts (allInstalled s) = alerts s @ [''All dependencies installed successfully!'']"
  by (simp_all add: allInstalled_def)

section \<open>The timers: invariants of a batch installation\<close>

lemma pick_member: "pick ts = Some t \<Longrightarrow> t \<in> set ts"
  by (induction ts arbitrary: t) (auto split: option.splits if_splits)

lemma pick_None: "(pick ts = None) = (ts = [])"
  by (cases ts) (auto split: option.splits if_splits)

lemma pick_least: "pick ts = Some t \<Longrightarrow> u \<in> set ts \<Longrightarrow> due t \<le> due u"
proof (induction ts arbitrary: t u)
  case Nil
  then show ?case by simp
next
  case (Cons a ts)
  show ?case
  proof (cases "pick ts")
    case None
    then have "ts = []" by (simp add: pick_None)
    with Cons.prems None show ?thesis by simp
  next
    case (Some v)
    have v: "\<And>w. w \<in> set ts \<Longrightarrow> due v \<le> due w"
      using Cons.IH [OF Some] .
    from Cons.prems Some show ?thesis
      by (auto simp: earlier_def split: if_splits dest: v)
  qed
qed

lemma sum_without:
  "distinct (map tid ts) \<Longrightarrow> t \<in> set ts \<Longrightarrow>
   sum_list (map f (filter (\<lambda>u. tid u \<noteq> tid t) ts)) + f t = sum_list (map (f :: timer \<Rightarrow> nat) ts)"
proof (induction ts)
  case Nil
  then show ?case by simp
next
  case (Cons a ts)
  show ?case
  proof (cases "a = t")
    case True
    with Cons.prems have "filter (\<lambda>u. tid u \<noteq> tid t) ts = ts"
      by (auto simp: filter_id_conv image_iff)
    with True show ?thesis by simp
  next
    case False
    with Cons.prems have "t \<in> set ts" and "tid a \<noteq> tid t"
      by (auto simp: image_iff)
    with Cons show ?thesis by simp
  qed
qed

lemma sum_rearmed:
  "distinct (map tid ts) \<Longrightarrow> t \<in> set ts \<Longrightarrow> tid (g t) = tid t \<Longrightarrow>
   sum_list (map f (map (\<lambda>u. if tid u = tid t then g u else u) ts)) + f t
     = sum_list (map (f :: timer \<Rightarrow> nat) ts) + f (g t)"
proof (induction ts)
  case Nil
  then show ?case by simp
next
  case (Cons a ts)
  show ?case
  proof (cases "a = t")
    case True
    with Cons.prems have "map (\<lambda>u. if tid u = tid t then g u else u) ts = ts"
      by (intro map_idI) (auto simp: image_iff)
    with True show ?thesis by simp
  next
    case False
    with Cons.prems have "t \<in> set ts" and "tid a \<noteq> tid t"
      by (auto simp: image_iff)
    with Cons show ?thesis by simp
  qed
qed

lemma batchInv_logMessage [simp]: "batchInv P k t0 as0 n a (logMessage m ty s) = batchInv P k t0 as0 n a s"
  by (simp add: batchInv_def)

lemma batchInv_updateStatus [simp]: "batchInv P k t0 as0 n a (updateStatus b st s) = batchInv P k t0 as0 n a s"
  by (simp add: batchInv_def)

lemma batchInv_launched [simp]: "batchInv P k t0 as0 n a (s\<lparr>launched := l\<rparr>) = batchInv P k t0 as0 n a s"
  by (simp add: batchInv_def)

lemma reports_simps [simp]:
  "reports k \<lparr>tid = i, due = d, period = p, handler = AllInstalled\<rparr> = 0"
  "reports k \<lparr>tid = i, due = d, period = p, handler = CheckInstall b e (Some (InstallAllCallback k))\<rparr> = 1"
  "reports k (t\<lparr>due := d\<rparr>) = reports k t"
  by (simp_all add: reports_def)

lemma announces_simps [simp]:
  "announces \<lparr>tid = i, due = d, period = p, handler = AllInstalled\<rparr> = 1"
  "announces \<lparr>tid = i, due = d, period = p, handler = CheckInstall b e cb\<rparr> = 0"
  "announces (t\<lparr>due := d\<rparr>) = announces t"
  by (simp_all add: announces_def)

lemma timerOk_simps [simp]:
  "timerOk P k t0 \<lparr>tid = i, due = d, period = None, handler = AllInstalled\<rparr>"
  "timerOk P k t0 \<lparr>tid = i, due = d, period = Some 500,
                    handler = CheckInstall b e (Some (InstallAllCallback k))\<rparr> = P e"
  by (simp_all add: timerOk_def)

lemma pending_simps [simp]:
  "pending k [] = 0"
  "pending k (ts @ us) = pending k ts + pending k us"
  "pending k [t] = reports k t"
  by (simp_all add: pending_def)

lemma announcing_simps [simp]:
  "announcing [] = 0"
  "announcing (ts @ us) = announcing ts + announcing us"
  "announcing [t] = announces t"
  by (simp_all add: announcing_def)

lemma batchInv_fresh: "list_all (\<lambda>t. tid t < n \<and> Q t) ts \<Longrightarrow> n \<notin> tid ` set ts"
  by (auto simp: list_all_iff)

lemma batchInv_older:
  "list_all (\<lambda>t. tid t < n \<and> d \<le> due t \<and> Q t) ts \<Longrightarrow>
   list_all (\<lambda>t. tid t < Suc n \<and> d \<le> due t \<and> Q t) ts"
  by (auto simp: list_all_iff)

lemma batchInv_callback:
  assumes "batchInv P k t0 as0 (Suc n) a s"
  shows "batchInv P k t0 as0 n a (completionCallback k s)"
proof -
  let ?A = "announcing (timers s)"
  let ?R = "pending k (timers s)"
  let ?c = "completed s k"
  from assms have d: "distinct (map tid (timers s))"
    and l: "list_all (\<lambda>t. tid t < nextTimer s \<and> now s \<le> due t \<and> timerOk P k t0 t) (timers s)"
    and cnt: "?c + ?R + Suc n = length botNames"
    and an: "?A + a \<le> (if ?c = length botNames then 1 else 0)"
    and al: "alerts s = as0 @ replicate ((if ?c = length botNames then 1 else 0) - (?A + a)) announcement"
    and pb: "progressBarShown s = (alerts s = as0)"
    and pf: "progressFill s = percentOf ?c"
    unfolding batchInv_def by blast+
  from cnt have ne: "?c \<noteq> length botNames" by simp
  with an have A0: "?A = 0" and a0: "a = 0" by simp_all
  from al ne have al0: "alerts s = as0" by simp
  show ?thesis
  proof (cases "?c + 1 = length botNames")
    case True
    with cnt d l pb al0 A0 a0 batchInv_fresh [OF l] batchInv_older [OF l] show ?thesis
      by (simp add: batchInv_def)
  next
    case False
    with cnt d l pb al0 A0 a0 show ?thesis
      by (simp add: batchInv_def)
  qed
qed

lemma batchInv_setInterval:
  assumes "batchInv P k t0 as0 (Suc n) a s" and "P e"
  shows "batchInv P k t0 as0 n a (setInterval (CheckInstall b e (Some (InstallAllCallback k))) 500 s)"
proof -
  from assms have l: "list_all (\<lambda>t. tid t < nextTimer s \<and> now s \<le> due t \<and> timerOk P k t0 t) (timers s)"
    unfolding batchInv_def by blast
  from assms batchInv_fresh [OF l] batchInv_older [OF l] show ?thesis
    by (auto simp: batchInv_def)
qed

lemma batchInv_allInstalled:
  assumes "batchInv P k t0 as0 n (Suc a) s"
  shows "batchInv P k t0 as0 n a (allInstalled s)"
proof -
  let ?A = "announcing (timers s)"
  let ?c = "completed s k"
  from assms have an: "?A + Suc a \<le> (if ?c = length botNames then 1 else 0)"
    and al: "alerts s = as0 @ replicate ((if ?c = length botNames then 1 else 0) - (?A + Suc a)) announcement"
    unfolding batchInv_def by blast+
  from an have c: "?c = length botNames" and A0: "?A = 0" and a0: "a = 0"
    by (simp_all split: if_splits)
  with al have "alerts s = as0" by simp
  with assms c A0 a0 show ?thesis
    by (auto simp: batchInv_def announcement_def)
qed

lemma pending_without:
  "distinct (map tid ts) \<Longrightarrow> t \<in> set ts \<Longrightarrow>
   pending k (filter (\<lambda>u. tid u \<noteq> tid t) ts) + reports k t = pending k ts"
  unfolding pending_def by (rule sum_without)

lemma announcing_without:
  "distinct (map tid ts) \<Longrightarrow> t \<in> set ts \<Longrightarrow>
   announcing (filter (\<lambda>u. tid u \<noteq> tid t) ts) + announces t = announcing ts"
  unfolding announcing_def by (rule sum_without)

lemma pending_rearmed:
  "distinct (map tid ts) \<Longrightarrow> t \<in> set ts \<Longrightarrow>
   pending k (map (\<lambda>u. if tid u = tid t then u\<lparr>due := due u + p\<rparr> else u) ts) = pending k ts"
  using sum_rearmed [of ts t "\<lambda>u. u\<lparr>due := due u + p\<rparr>" "reports k"]
  by (simp add: pending_def)

lemma announcing_rearmed:
  "distinct (map tid ts) \<Longrightarrow> t \<in> set ts \<Longrightarrow>
   announcing (map (\<lambda>u. if tid u = tid t then u\<lparr>due := due u + p\<rparr> else u) ts) = announcing ts"
  using sum_rearmed [of ts t "\<lambda>u. u\<lparr>due := due u + p\<rparr>" announces]
  by (simp add: announcing_def)

lemma list_all_mapI: "(\<And>u. u \<in> set xs \<Longrightarrow> Q (g u)) \<Longrightarrow> list_all Q (map g xs)"
  by (induction xs) simp_all

lemma tid_rearmed:
  "map tid (map (\<lambda>u. if tid u = i then u\<lparr>due := due u + p\<rparr> else u) ts) = map tid ts"
  by (induction ts) simp_all

lemma timerOk_rearmed:
  "timerOk P k t0 u \<Longrightarrow> period u = Some p \<Longrightarrow> timerOk P k t0 (u\<lparr>due := d\<rparr>)"
  by (auto simp: timerOk_def split: task.splits)

lemma batchInv_without:
  assumes "batchInv P k t0 as0 0 0 s" and "t \<in> set (timers s)" and "now s \<le> d"
    and "\<And>u. u \<in> set (timers s) \<Longrightarrow> tid u \<noteq> tid t \<Longrightarrow> d \<le> due u"
  shows "batchInv P k t0 as0 (reports k t) (announces t)
           (s\<lparr>now := d, timers := filter (\<lambda>u. tid u \<noteq> tid t) (timers s)\<rparr>)"
proof -
  from assms(1) have d: "distinct (map tid (timers s))"
    and l: "list_all (\<lambda>t. tid t < nextTimer s \<and> now s \<le> due t \<and> timerOk P k t0 t) (timers s)"
    unfolding batchInv_def by blast+
  from l assms(4) have l': "list_all (\<lambda>u. tid u < nextTimer s \<and> d \<le> due u \<and> timerOk P k t0 u)
       (filter (\<lambda>u. tid u \<noteq> tid t) (timers s))"
    by (auto simp: list_all_iff)
  from d have d': "distinct (map tid (filter (\<lambda>u. tid u \<noteq> tid t) (timers s)))"
    by (simp add: distinct_map_filter)
  from assms(1) l' d' pending_without [OF d assms(2), of k] announcing_without [OF d assms(2)]
  show ?thesis
    by (auto simp: batchInv_def)
qed

lemma batchInv_dequeue:
  assumes "batchInv P k t0 as0 0 0 s" and "pick (timers s) = Some t"
  shows "batchInv P k t0 as0 (reports k t) (announces t)
           (s\<lparr>now := max (now s) (due t), timers := filter (\<lambda>u. tid u \<noteq> tid t) (timers s)\<rparr>)"
proof -
  from assms(2) have m: "t \<in> set (timers s)" by (rule pick_member)
  from assms(1) m have "now s \<le> due t"
    by (auto simp: batchInv_def list_all_iff)
  then have mx: "max (now s) (due t) = due t" by simp
  show ?thesis
    unfolding mx using assms(1) m \<open>now s \<le> due t\<close> pick_least [OF assms(2)]
    by (rule batchInv_without)
qed

lemma batchInv_clearInterval:
  assumes "batchInv P k t0 as0 0 0 s" and "t \<in> set (timers s)"
  shows "batchInv P k t0 as0 (reports k t) (announces t) (clearInterval (tid t) s)"
proof -
  from assms(1) have "\<And>u. u \<in> set (timers s) \<Longrightarrow> tid u \<noteq> tid t \<Longrightarrow> now s \<le> due u"
    by (auto simp: batchInv_def list_all_iff)
  from batchInv_without [OF assms order_refl this] show ?thesis
    by (simp add: clearInterval_def)
qed

lemma batchInv_rearm:
  assumes "batchInv P k t0 as0 0 0 s" and "pick (timers s) = Some t" and "period t = Some p"
  shows "batchInv P k t0 as0 0 0
           (s\<lparr>now := max (now s) (due t),
              timers := map (\<lambda>u. if tid u = tid t then u\<lparr>due := due u + p\<rparr> else u) (timers s)\<rparr>)"
proof -
  from assms(2) have m: "t \<in> set (timers s)" by (rule pick_member)
  from assms(1) have d: "distinct (map tid (timers s))"
    and l: "list_all (\<lambda>t. tid t < nextTimer s \<and> now s \<le> due t \<and> timerOk P k t0 t) (timers s)"
    unfolding batchInv_def by blast+
  from l m have "now s \<le> due t" by (auto simp: list_all_iff)
  then have mx: "max (now s) (due t) = due t" by simp
  have same: "u = t" if "u \<in> set (timers s)" and "tid u = tid t" for u
    using d m that by (auto simp: distinct_map inj_on_def)
  let ?g = "\<lambda>u. if tid u = tid t then u\<lparr>due := due u + p\<rparr> else u"
  have "tid (?g u) < nextTimer s \<and> due t \<le> due (?g u) \<and> timerOk P k t0 (?g u)"
    if "u \<in> set (timers s)" for u
  proof (cases "tid u = tid t")
    case True
    with that same have "u = t" by simp
    with that l m assms(3) show ?thesis
      by (auto simp: list_all_iff intro: timerOk_rearmed)
  next
    case False
    with that l pick_least [OF assms(2)] show ?thesis
      by (auto simp: list_all_iff)
  qed
  then have l': "list_all (\<lambda>u. tid u < nextTimer s \<and> due t \<le> due u \<and> timerOk P k t0 u)
       (map ?g (timers s))"
    by (rule list_all_mapI)
  have d': "distinct (map tid (map ?g (timers s)))"
    by (simp only: tid_rearmed d)
  from assms(1) l' d' pending_rearmed [OF d m, of k p] announcing_rearmed [OF d m, of p]
  show ?thesis
    unfolding mx by (auto simp: batchInv_def)
qed

lemma batchInv_call:
  "batchInv P k t0 as0 (Suc n) a s \<Longrightarrow> batchInv P k t0 as0 n a (call (Some (InstallAllCallback k)) s)"
  by (simp add: call_def batchInv_callback)

lemma batchInv_installBot:
  assumes "batchInv P k t0 as0 1 0 s" and "startsOnly env P"
  shows "batchInv P k t0 as0 0 0 (installBot env b (Some (InstallAllCallback k)) s)"
proof -
  from assms(1) have i: "batchInv P k t0 as0 (Suc 0) 0 s" by simp
  show ?thesis
  proof (cases "Exec env (now s) (installCommand (botPath s b))")
    case (ExecRaised m)
    with i show ?thesis
      by (simp add: installBot_def Let_def batchInv_call)
  next
    case (ExecStarted e)
    with assms(2) have "P e" unfolding startsOnly_def by blast
    with i ExecStarted show ?thesis
      by (simp add: installBot_def Let_def batchInv_call batchInv_setInterval)
  qed
qed

lemma batchInv_checkInstall:
  assumes "batchInv P k t0 as0 0 0 s" and "t \<in> set (timers s)" and "reports k t = 1" and "announces t = 0"
  shows "batchInv P k t0 as0 0 0 (checkInstall b e (Some (InstallAllCallback k)) (tid t) s)"
proof (cases "Status e (now s) = 1")
  case True
  from batchInv_clearInterval [OF assms(1,2)] assms(3,4)
  have "batchInv P k t0 as0 (Suc 0) 0 (clearInterval (tid t) s)" by simp
  with True show ?thesis
    by (simp add: checkInstall_def Let_def batchInv_call)
next
  case False
  with assms(1) show ?thesis
    by (simp add: checkInstall_def)
qed

lemma fire_Some:
  "fire env s = Some s' \<Longrightarrow>
   \<exists>t. pick (timers s) = Some t
     \<and> s' = runTask env (tid t) (handler t)
               (s\<lparr>now := max (now s) (due t), timers := rearm t (timers s)\<rparr>)"
  by (auto simp: fire_def split: option.splits)

lemma batchInv_fire:
  assumes "batchInv P k t0 as0 0 0 s" and "fire env s = Some s'"
    and ex: "startsOnly env P"
  shows "batchInv P k t0 as0 0 0 s'"
proof -
  from fire_Some [OF assms(2)] obtain t where
    p: "pick (timers s) = Some t" and
    s': "s' = runTask env (tid t) (handler t)
               (s\<lparr>now := max (now s) (due t), timers := rearm t (timers s)\<rparr>)"
    by blast
  from p have m: "t \<in> set (timers s)" by (rule pick_member)
  with assms(1) have ok: "timerOk P k t0 t"
    by (auto simp: batchInv_def list_all_iff)
  show ?thesis
  proof (cases "handler t")
    case (InstallTimer b cb)
    with ok have cb: "cb = InstallAllCallback k" and per: "period t = None"
      by (simp_all add: timerOk_def)
    from InstallTimer cb have "reports k t = 1" "announces t = 0"
      by (simp_all add: reports_def announces_def)
    with batchInv_dequeue [OF assms(1) p]
    have "batchInv P k t0 as0 1 0 (s\<lparr>now := max (now s) (due t), timers := rearm t (timers s)\<rparr>)"
      by (simp add: rearm_def per)
    from batchInv_installBot [OF this ex] show ?thesis
      by (simp add: s' InstallTimer cb runTask_def)
  next
    case (CheckInstall b e cb)
    with ok have cb: "cb = Some (InstallAllCallback k)" and per: "period t = Some 500"
      by (simp_all add: timerOk_def)
    let ?s1 = "s\<lparr>now := max (now s) (due t), timers := rearm t (timers s)\<rparr>"
    let ?t' = "t\<lparr>due := due t + 500\<rparr>"
    from batchInv_rearm [OF assms(1) p per] have i1: "batchInv P k t0 as0 0 0 ?s1"
      by (simp add: rearm_def per)
    from m have m': "?t' \<in> set (timers ?s1)"
      by (auto simp: rearm_def per intro!: image_eqI [where x = t])
    from CheckInstall cb have r: "reports k ?t' = 1" "announces ?t' = 0"
      by (simp_all add: reports_def announces_def)
    from batchInv_checkInstall [OF i1 m' r, of b e] show ?thesis
      by (simp add: s' CheckInstall cb runTask_def)
  next
    case AllInstalled
    with ok have per: "period t = None"
      by (simp add: timerOk_def)
    from AllInstalled have "reports k t = 0" "announces t = 1"
      by (simp_all add: reports_def announces_def)
    with batchInv_dequeue [OF assms(1) p]
    have "batchInv P k t0 as0 0 (Suc 0) (s\<lparr>now := max (now s) (due t), timers := rearm t (timers s)\<rparr>)"
      by (simp add: rearm_def per)
    from batchInv_allInstalled [OF this] show ?thesis
      by (simp add: s' AllInstalled runTask_def)
  next
    case (StartTimer b)
    with ok show ?thesis by (simp add: timerOk_def)
  qed
qed

lemma batchInv_run:
  assumes "batchInv P k t0 as0 0 0 s" and ex: "startsOnly env P"
  shows "batchInv P k t0 as0 0 0 (run m env s)"
  using assms(1)
proof (induction m arbitrary: s)
  case 0
  then show ?case by simp
next
  case (Suc m)
  show ?case
  proof (cases "fire env s")
    case None
    with Suc.prems show ?thesis by simp
  next
    case (Some s')
    from Suc.IH [OF batchInv_fire [OF Suc.prems Some ex]] Some show ?thesis by simp
  qed
qed

lemma upt_botNames: "[0..<length botNames] = [0, 1, 2, 3]"
  by (simp add: botNames_def upt_rec)

lemma installAll_fields:
  "currentDir (installAll s) = currentDir s"
  "now (installAll s) = now s"
  "folders (installAll s) = folders s"
  "files (installAll s) = files s"
  "runningProcesses (installAll s) = runningProcesses s"
  "statusIndicator (installAll s) = statusIndicator s"
  "logs (installAll s) = logs s @ [(now s, ''Starting installation for all bots...'', Info)]"
  "launched (installAll s) = launched s"
  "timers (installAll s)
     = timers s @ map (\<lambda>i. \<lparr>tid = nextTimer s + i, due = now s + i * 1000, period = None,
                            handler = InstallTimer (botNames ! i) (InstallAllCallback (nextCell s))\<rparr>)
                  [0..<length botNames]"
  "nextTimer (installAll s) = nextTimer s + length botNames"
  "completed (installAll s) = (completed s)(nextCell s := 0)"
  "nextCell (installAll s) = nextCell s + 1"
  "progressBarShown (installAll s) = True"
  "progressFill (installAll s) = 0"
  "alerts (installAll s) = alerts s"
  by (simp_all add: installAll_def Let_def upt_botNames) (simp_all add: botNames_def)

lemma percentOf_eq: "percentOf c = 25 * c"
proof -
  have "real c / real (length botNames) * 100 + 1 / 2 = real (25 * c) + 1 / 2"
    by (simp add: botNames_def)
  moreover have "\<lfloor>real (25 * c) + 1 / 2\<rfloor> = int (25 * c)"
    by linarith
  ultimately show ?thesis
    by (simp add: percentOf_def)
qed

lemma installAll_batchInv:
  assumes "timers s = []"
  shows "batchInv P (nextCell s) (now s) (alerts s) 0 0 (installAll s)"
  using assms
  by (simp add: batchInv_def installAll_fields upt_botNames percentOf_eq)
     (simp add: botNames_def timerOk_def pending_def announcing_def reports_def announces_def)

lemma load_simps [simp]:
  "load env dir [] = 0"
  "load env dir (ts @ us) = load env dir ts + load env dir us"
  "load env dir [t] = weight env dir t"
  by (simp_all add: load_def)

lemma load_without:
  "distinct (map tid ts) \<Longrightarrow> t \<in> set ts \<Longrightarrow>
   load env dir (filter (\<lambda>u. tid u \<noteq> tid t) ts) + weight env dir t = load env dir ts"
  unfolding load_def by (rule sum_without)

lemma load_rearmed:
  "distinct (map tid ts) \<Longrightarrow> t \<in> set ts \<Longrightarrow>
   load env dir (map (\<lambda>u. if tid u = tid t then u\<lparr>due := due u + p\<rparr> else u) ts) + weight env dir t
     = load env dir ts + weight env dir (t\<lparr>due := due t + p\<rparr>)"
  using sum_rearmed [of ts t "\<lambda>u. u\<lparr>due := due u + p\<rparr>" "weight env dir"]
  by (simp add: load_def)

lemma potential_logMessage [simp]: "potential env k (logMessage m ty s) = potential env k s"
  by (simp add: potential_def)

lemma potential_updateStatus [simp]: "potential env k (updateStatus b st s) = potential env k s"
  by (simp add: potential_def)

lemma potential_launched [simp]: "potential env k (s\<lparr>launched := l\<rparr>) = potential env k s"
  by (simp add: potential_def)

lemma potential_callback: "potential env k (completionCallback k s) \<le> potential env k s"
  by (simp add: potential_def weight_def)

lemma potential_call: "potential env k (call (Some (InstallAllCallback k)) s) \<le> potential env k s"
  by (simp add: call_def potential_callback)

lemma potential_setInterval:
  "potential env k (setInterval (CheckInstall b e cb) 500 s)
     = potential env k s + ticks e (now s + 500)"
  by (simp add: potential_def weight_def)

lemma potential_allInstalled [simp]: "potential env k (allInstalled s) = potential env k s"
  by (simp add: potential_def)

lemma poll_count_drops:
  assumes "0 < (p::nat)" and "u < x"
  shows "(x - (u + p) + (p - 1)) div p < (x - u + (p - 1)) div p"
proof (cases "u + p \<le> x")
  case True
  then have "x - u + (p - 1) = (x - (u + p) + (p - 1)) + p" by simp
  then have eq: "(x - u + (p - 1)) div p = (x - (u + p) + (p - 1)) div p + 1"
    using assms(1) by (simp only: div_add_self2)
  show ?thesis unfolding eq by simp
next
  case False
  then have z: "x - (u + p) = 0" by simp
  from assms have "p \<le> x - u + (p - 1)" by simp
  then have "1 \<le> (x - u + (p - 1)) div p"
    using assms(1) by (simp add: Suc_le_eq div_greater_zero_iff)
  moreover have "(0 + (p - 1)) div p = 0" using assms(1) by simp
  ultimately show ?thesis unfolding z by linarith
qed

lemma ticks_next:
  assumes "exitsAt e = Some x" and "u < x"
  shows "ticks e (u + 500) < ticks e u"
proof -
  have "(x - (u + 500) + 499) div 500 < (x - u + 499) div 500"
    using poll_count_drops [of 500 u x] assms(2) by simp
  then have "1 + (x - (u + 500) + 499) div 500 < 1 + (x - u + 499) div 500"
    by (simp only: add_less_cancel_left)
  then show ?thesis
    by (simp only: ticks_def assms(1) option.case)
qed

lemma ticks_pos: "exitsAt e = Some x \<Longrightarrow> 0 < ticks e u"
  by (simp add: ticks_def)

lemma potential_installBot:
  "potential env k (installBot env b (Some (InstallAllCallback k)) s)
     \<le> potential env k s
         + (case Exec env (now s) (installCommand (currentDir s @ bs @ b)) of
              ExecStarted e \<Rightarrow> ticks e (now s + 500)
            | ExecRaised m \<Rightarrow> 0)"
proof (cases "Exec env (now s) (installCommand (botPath s b))")
  case (ExecRaised m)
  then show ?thesis
    using potential_call [of env k "logMessage (b @ '': Folder not found!'') Error s"]
      potential_call [of env k "logMessage (b @ '': package.json not found!'') Error s"]
      potential_call [of env k "updateStatus b Stopped (logMessage (b @ '': Installation error - '' @ m) Error
         (logMessage (b @ '': Installing dependencies...'') Info (updateStatus b Installing s)))"]
    by (simp add: installBot_def Let_def botPath_def)
next
  case (ExecStarted e)
  then show ?thesis
    using potential_call [of env k "logMessage (b @ '': Folder not found!'') Error s"]
      potential_call [of env k "logMessage (b @ '': package.json not found!'') Error s"]
    by (simp add: installBot_def Let_def botPath_def potential_setInterval)
qed

lemma potential_without:
  assumes "distinct (map tid (timers s))" and "t \<in> set (timers s)"
  shows "potential env k (s\<lparr>now := d, timers := filter (\<lambda>u. tid u \<noteq> tid t) (timers s)\<rparr>)
           + weight env (currentDir s) t = potential env k s"
  using load_without [OF assms, of env "currentDir s"]
  by (simp add: potential_def)

lemma potential_fire:
  assumes i: "batchInv (\<lambda>e. exitsAt e \<noteq> None) k t0 as0 0 0 s" and f: "fire env s = Some s'"
    and ex: "startsOnly env (\<lambda>e. exitsAt e \<noteq> None)"
  shows "potential env k s' < potential env k s"
proof -
  from fire_Some [OF f] obtain t where
    p: "pick (timers s) = Some t" and
    s': "s' = runTask env (tid t) (handler t)
               (s\<lparr>now := max (now s) (due t), timers := rearm t (timers s)\<rparr>)"
    by blast
  from p have m: "t \<in> set (timers s)" by (rule pick_member)
  from i have d: "distinct (map tid (timers s))"
    unfolding batchInv_def by blast
  from i m have ok: "timerOk (\<lambda>e. exitsAt e \<noteq> None) k t0 t" and le: "now s \<le> due t"
    by (auto simp: batchInv_def list_all_iff)
  from le have mx: "max (now s) (due t) = due t" by simp
  show ?thesis
  proof (cases "handler t")
    case (InstallTimer b cb)
    with ok have cb: "cb = InstallAllCallback k" and per: "period t = None"
      by (simp_all add: timerOk_def)
    let ?s1 = "s\<lparr>now := due t, timers := filter (\<lambda>u. tid u \<noteq> tid t) (timers s)\<rparr>"
    have s1: "s' = installBot env b (Some (InstallAllCallback k)) ?s1"
      by (simp add: s' mx InstallTimer cb runTask_def rearm_def per)
    from potential_without [OF d m, of env k "due t"] InstallTimer
    have "potential env k ?s1
            + (1 + (case Exec env (due t) (installCommand (currentDir s @ bs @ b)) of
                      ExecStarted e \<Rightarrow> ticks e (due t + 500) | ExecRaised m \<Rightarrow> 0))
          = potential env k s"
      by (simp add: weight_def)
    with potential_installBot [of env k b ?s1] show ?thesis
      by (simp add: s1 split: exec_outcome.splits)
  next
    case (CheckInstall b e cb)
    with ok obtain x where cb: "cb = Some (InstallAllCallback k)" and per: "period t = Some 500"
      and x: "exitsAt e = Some x"
      by (auto simp: timerOk_def)
    let ?s1 = "s\<lparr>now := due t,
                 timers := map (\<lambda>u. if tid u = tid t then u\<lparr>due := due u + 500\<rparr> else u) (timers s)\<rparr>"
    let ?t' = "t\<lparr>due := due t + 500\<rparr>"
    have s1: "s' = checkInstall b e (Some (InstallAllCallback k)) (tid t) ?s1"
      by (simp add: s' mx CheckInstall cb runTask_def rearm_def per)
    from load_rearmed [OF d m, of env "currentDir s" 500] CheckInstall
    have l1: "potential env k ?s1 + ticks e (due t) = potential env k s + ticks e (due t + 500)"
      by (simp add: potential_def weight_def)
    show ?thesis
    proof (cases "Status e (due t) = 1")
      case True
      from batchInv_rearm [OF i p per] have "distinct (map tid (timers ?s1))"
        by (simp add: batchInv_def mx)
      moreover from m have "?t' \<in> set (timers ?s1)"
        by (auto intro!: image_eqI [where x = t])
      ultimately have "potential env k (?s1\<lparr>now := due t, timers := filter (\<lambda>u. tid u \<noteq> tid ?t') (timers ?s1)\<rparr>)
           + weight env (currentDir ?s1) ?t' = potential env k ?s1"
        by (rule potential_without)
      with CheckInstall have "potential env k (clearInterval (tid t) ?s1) + ticks e (due t + 500)
           = potential env k ?s1"
        by (simp add: clearInterval_def weight_def)
      with l1 ticks_pos [OF x, of "due t"]
      have "potential env k (clearInterval (tid t) ?s1) < potential env k s"
        by linarith
      moreover have "potential env k s' \<le> potential env k (clearInterval (tid t) ?s1)"
        using True
          potential_call [of env k "updateStatus b Stopped
            (logMessage (b @ '': Dependencies installed successfully!'') Success (clearInterval (tid t) ?s1))"]
          potential_call [of env k "updateStatus b Stopped
            (logMessage (b @ '': Installation failed with exit code '' @ showInt (ExitCode e)) Error
              (clearInterval (tid t) ?s1))"]
        by (simp add: s1 checkInstall_def Let_def)
      ultimately show ?thesis by simp
    next
      case False
      then have "due t < x"
        using x by (simp add: Status_def split: if_splits)
      from ticks_next [OF x this] l1 False show ?thesis
        by (simp add: s1 checkInstall_def)
    qed
  next
    case AllInstalled
    with ok have per: "period t = None"
      by (simp add: timerOk_def)
    from potential_without [OF d m, of env k "due t"] AllInstalled show ?thesis
      by (simp add: s' mx AllInstalled runTask_def rearm_def per weight_def)
  next
    case (StartTimer b)
    with ok show ?thesis by (simp add: timerOk_def)
  qed
qed

lemma fire_None: "(fire env s = None) = (timers s = [])"
  by (auto simp: fire_def pick_None split: option.splits)

lemma batch_finishes:
  assumes "batchInv (\<lambda>e. exitsAt e \<noteq> None) k t0 as0 0 0 s"
    and ex: "startsOnly env (\<lambda>e. exitsAt e \<noteq> None)"
  shows "\<exists>m. timers (run m env s) = []"
  using assms(1)
proof (induction "potential env k s" arbitrary: s rule: less_induct)
  case less
  show ?case
  proof (cases "fire env s")
    case None
    then have "timers (run 0 env s) = []" by (simp add: fire_None)
    then show ?thesis by blast
  next
    case (Some s')
    from less.hyps [OF potential_fire [OF less.prems Some ex] batchInv_fire [OF less.prems Some ex]]
    obtain m where "timers (run m env s') = []" by blast
    with Some have "timers (run (Suc m) env s) = []" by simp
    then show ?thesis by blast
  qed
qed

lemma firings_installs:
  assumes "batchInv P k t0 as0 0 0 s" and "startsOnly env P"
    and "(t, InstallTimer b cb) \<in> set (firings m env s)"
  shows "\<exists>i<length botNames. b = botNames ! i \<and> t = t0 + i * 1000"
  using assms(1,3)
proof (induction m arbitrary: s)
  case 0
  then show ?case by simp
next
  case (Suc m)
  from Suc.prems(2) obtain u where p: "pick (timers s) = Some u"
    by (cases "pick (timers s)") auto
  from p have mem: "u \<in> set (timers s)" by (rule pick_member)
  with Suc.prems(1) have le: "now s \<le> due u" and ok: "timerOk P k t0 u"
    by (auto simp: batchInv_def list_all_iff)
  from p obtain s' where f: "fire env s = Some s'"
    by (simp add: fire_def)
  from Suc.prems(2) p f
  have "(t, InstallTimer b cb) = (max (now s) (due u), handler u)
        \<or> (t, InstallTimer b cb) \<in> set (firings m env s')"
    by auto
  then show ?case
  proof
    assume "(t, InstallTimer b cb) = (max (now s) (due u), handler u)"
    with le have "t = due u" and "handler u = InstallTimer b cb"
      by simp_all
    with ok show ?thesis
      by (simp add: timerOk_def)
  next
    assume "(t, InstallTimer b cb) \<in> set (firings m env s')"
    with Suc.IH [OF batchInv_fire [OF Suc.prems(1) f assms(2)]] show ?thesis
      by blast
  qed
qed

lemma announcing_0: "(announcing ts = 0) = (\<forall>t\<in>set ts. handler t \<noteq> AllInstalled)"
  by (induction ts) (auto simp: announcing_def announces_def)

lemma batchInv_announced:
  assumes "batchInv P k t0 as0 0 0 s"
  shows "((\<exists>t\<in>set (timers s). handler t = AllInstalled) \<or> alerts s \<noteq> as0)
           = (completed s k = length botNames)"
proof -
  let ?A = "announcing (timers s)"
  from assms have an: "?A \<le> (if completed s k = length botNames then 1 else 0)"
    and al: "alerts s = as0 @ replicate ((if completed s k = length botNames then 1 else 0) - ?A) announcement"
    unfolding batchInv_def by simp_all
  show ?thesis
  proof (cases "completed s k = length botNames")
    case True
    show ?thesis
    proof (cases "?A = 0")
      case True
      with al \<open>completed s k = length botNames\<close> show ?thesis by simp
    next
      case False
      then show ?thesis
        using True by (auto simp: announcing_0)
    qed
  next
    case False
    with an have "?A = 0" by simp
    with al False show ?thesis
      by (auto simp: announcing_0)
  qed
qed

lemma batchInv_done:
  assumes "batchInv P k t0 as0 0 0 s" and "timers s = []"
  shows "completed s k = length botNames \<and> alerts s = as0 @ [announcement]
       \<and> \<not> progressBarShown s \<and> progressFill s = 100"
  using assms by (auto simp: batchInv_def percentOf_eq botNames_def)

lemma batchInv_count:
  assumes "batchInv P k t0 as0 0 0 s"
  shows "completed s k + pending k (timers s) = length botNames"
  using assms by (simp add: batchInv_def)

lemma startsOnly_True: "startsOnly env (\<lambda>e. True)"
  by (simp add: startsOnly_def)

lemma startBot_timers [simp]:
  "timers (startBot env b s) = timers s"
  "now (startBot env b s) = now s"
  "nextTimer (startBot env b s) = nextTimer s"
  by (simp_all add: startBot_def Let_def split: run_outcome.splits)

lemma stopBot_timers [simp]:
  "timers (stopBot env b s) = timers s"
  "now (stopBot env b s) = now s"
  "nextTimer (stopBot env b s) = nextTimer s"
  by (simp_all add: stopBot_def Let_def split: run_outcome.splits)

lemma startAllBots_timers:
  "timers (startAllBots s)
     = timers s @ map (\<lambda>i. \<lparr>tid = nextTimer s + i, due = now s + i * 500, period = None,
                            handler = StartTimer (botNames ! i)\<rparr>) [0..<length botNames]"
  by (simp add: startAllBots_def upt_botNames)

lemma startAllBots_now [simp]: "now (startAllBots s) = now s"
  by (simp add: startAllBots_def upt_botNames)

lemma stopAllBots_unfold:
  "stopAllBots env s
     = stopBot env ''MC4'' (stopBot env ''MC3'' (stopBot env ''MC2'' (stopBot env ''MC1''
         (logMessage ''Stopping all bots...'' Warning s))))"
  by (simp add: stopAllBots_def upt_botNames) (simp add: botNames_def)

lemma pick_head: "\<forall>u\<in>set ts. earlier t u \<Longrightarrow> pick (t # ts) = Some t"
  by (auto split: option.splits dest: pick_member)

lemma fire_head:
  assumes "timers s \<noteq> []" and "period (hd (timers s)) = None"
    and "\<forall>u\<in>set (tl (timers s)). earlier (hd (timers s)) u \<and> tid u \<noteq> tid (hd (timers s))"
  shows "fire env s
           = Some (runTask env (tid (hd (timers s))) (handler (hd (timers s)))
                     (s\<lparr>now := max (now s) (due (hd (timers s))), timers := tl (timers s)\<rparr>))"
proof -
  from assms(1) obtain t ts where ts: "timers s = t # ts" by (cases "timers s") auto
  with assms(3) have "pick (timers s) = Some t"
    by (simp add: pick_head del: pick.simps)
  moreover from assms(3) ts have "filter (\<lambda>u. tid u \<noteq> tid t) (timers s) = ts"
    by (simp add: filter_id_conv)
  ultimately show ?thesis
    using assms(2) ts by (simp add: fire_def rearm_def del: pick.simps)
qed

lemma firings_head:
  assumes "timers s \<noteq> []" and "period (hd (timers s)) = None"
    and "\<forall>u\<in>set (tl (timers s)). earlier (hd (timers s)) u \<and> tid u \<noteq> tid (hd (timers s))"
  shows "firings (Suc m) env s
           = (max (now s) (due (hd (timers s))), handler (hd (timers s)))
               # firings m env (runTask env (tid (hd (timers s))) (handler (hd (timers s)))
                     (s\<lparr>now := max (now s) (due (hd (timers s))), timers := tl (timers s)\<rparr>))"
proof -
  from assms(1) obtain t ts where ts: "timers s = t # ts" by (cases "timers s") auto
  with assms(3) have "pick (timers s) = Some t"
    by (simp add: pick_head del: pick.simps)
  with fire_head [OF assms, of env] ts show ?thesis
    by (simp del: pick.simps)
qed

lemma runTask_StartTimer [simp]: "runTask env i (StartTimer b) s = startBot env b s"
  by (simp add: runTask_def)

lemma startAll_firings:
  assumes "timers s = []"
  shows "firings 4 env (startAllBots s)
           = [(now s, StartTimer ''MC1''), (now s + 500, StartTimer ''MC2''),
              (now s + 1000, StartTimer ''MC3''), (now s + 1500, StartTimer ''MC4'')]"
proof -
  have n: "4 = Suc (Suc (Suc (Suc 0)))" by simp
  show ?thesis
    unfolding n using assms
    by (simp add: firings_head startAllBots_timers upt_botNames earlier_def botNames_def
        del: firings.simps(2))
qed

text \<open>
  An install that hangs is awaited for ever: the timer that awaits it is replaced by its
  polling, which is set again at every round, so the counter stays below the number of
  bots.
\<close>

lemma awaits_reports: "awaits k b t \<Longrightarrow> reports k t = 1"
  by (auto simp: awaits_def reports_def split: task.splits)

lemma awaits_pending:
  assumes "t \<in> set ts" and "awaits k b t"
  shows "0 < pending k ts"
proof -
  from assms(1) have "reports k t \<le> sum_list (map (reports k) ts)"
    by (simp add: member_le_sum_list)
  with awaits_reports [OF assms(2)] show ?thesis
    by (simp add: pending_def)
qed

lemma runTask_disk:
  "folders (runTask env i f s) = folders s"
  "files (runTask env i f s) = files s"
  "currentDir (runTask env i f s) = currentDir s"
  by (simp_all add: runTask_def installBot_def checkInstall_def call_def startBot_def Let_def
      split: task.splits exec_outcome.splits run_outcome.splits option.splits callback.splits)

lemma runTask_keeps:
  assumes "t \<in> set (timers s)" and "tid t \<noteq> i"
  shows "t \<in> set (timers (runTask env i f s))"
  using assms
  by (simp add: runTask_def installBot_def checkInstall_def call_def Let_def completionCallback_def
      split: task.splits exec_outcome.splits option.splits callback.splits)

lemma hangs_fire:
  assumes inv: "batchInv P k t0 as0 0 0 s"
    and h: "hangs env s b"
    and w: "\<exists>t\<in>set (timers s). awaits k b t"
    and f: "fire env s = Some s'"
  shows "hangs env s' b \<and> (\<exists>t\<in>set (timers s'). awaits k b t)"
proof -
  from fire_Some [OF f] obtain u where
    p: "pick (timers s) = Some u" and
    s': "s' = runTask env (tid u) (handler u)
               (s\<lparr>now := max (now s) (due u), timers := rearm u (timers s)\<rparr>)"
    by blast
  let ?s1 = "s\<lparr>now := max (now s) (due u), timers := rearm u (timers s)\<rparr>"
  from p have m: "u \<in> set (timers s)" by (rule pick_member)
  from inv have d: "distinct (map tid (timers s))"
    by (simp add: batchInv_def)
  from inv m have ok: "timerOk P k t0 u"
    by (auto simp: batchInv_def list_all_iff)
  from h have h': "hangs env s' b"
    by (simp add: hangs_def s' runTask_disk botPath_def)
  from w obtain t where t: "t \<in> set (timers s)" and a: "awaits k b t"
    by blast
  have "\<exists>t\<in>set (timers s'). awaits k b t"
  proof (cases "tid t = tid u")
    case False
    then have "t \<in> set (timers ?s1)"
      using t by (auto simp: rearm_def split: option.splits)
    from runTask_keeps [OF this False] a show ?thesis
      unfolding s' by blast
  next
    case True
    with d t m have tu: "t = u"
      by (meson distinct_map inj_onD)
    show ?thesis
    proof (cases "handler u")
      case (InstallTimer b' cb)
      with a tu have b': "b' = b" and cb: "cb = InstallAllCallback k"
        by (simp_all add: awaits_def)
      from h obtain e where
        e: "Exec env (max (now s) (due u)) (installCommand (botPath s b)) = ExecStarted e"
        and n: "exitsAt e = None"
        unfolding hangs_def by blast
      from h have fo: "botPath ?s1 b \<in> folders ?s1"
        and fi: "files ?s1 (botPath ?s1 b @ bs @ ''package.json'') \<noteq> None"
        by (simp_all add: hangs_def botPath_def)
      from e have e1: "Exec env (now ?s1) (installCommand (botPath ?s1 b)) = ExecStarted e"
        by (simp add: botPath_def)
      have "timers (installBot env b (Some (InstallAllCallback k)) ?s1)
          = timers ?s1 @ [\<lparr>tid = nextTimer ?s1, due = now ?s1 + 500,
           period = Some 500, handler = CheckInstall b e (Some (InstallAllCallback k))\<rparr>]"
        unfolding installBot_def Let_def using fo fi
        by (simp only: e1 if_False not_True_eq_False simp_thms) simp
      then have "timers s' = timers ?s1 @ [\<lparr>tid = nextTimer ?s1, due = now ?s1 + 500,
           period = Some 500, handler = CheckInstall b e (Some (InstallAllCallback k))\<rparr>]"
        by (simp add: s' InstallTimer b' cb runTask_def)
      with n show ?thesis
        by (simp add: awaits_def)
    next
      case (CheckInstall b' e cb)
      with a tu have n: "exitsAt e = None"
        by (simp add: awaits_def)
      from CheckInstall ok have per: "period u = Some 500"
        by (simp add: timerOk_def)
      from n have "s' = ?s1"
        by (simp add: s' CheckInstall runTask_def checkInstall_def Status_def)
      moreover from m have "u\<lparr>due := due u + 500\<rparr> \<in> set (rearm u (timers s))"
        by (auto simp: rearm_def per)
      moreover from a tu have "awaits k b (u\<lparr>due := due u + 500\<rparr>)"
        by (simp add: awaits_def)
      ultimately show ?thesis
        by auto
    next
      case AllInstalled
      with a tu show ?thesis by (simp add: awaits_def)
    next
      case (StartTimer x)
      with a tu show ?thesis by (simp add: awaits_def)
    qed
  qed
  with h' show ?thesis by blast
qed

lemma hangs_run:
  assumes "batchInv P k t0 as0 0 0 s" and "startsOnly env P"
    and "hangs env s b" and "\<exists>t\<in>set (timers s). awaits k b t"
  shows "\<exists>t\<in>set (timers (run m env s)). awaits k b t"
  using assms(1,3,4)
proof (induction m arbitrary: s)
  case 0
  then show ?case by simp
next
  case (Suc m)
  show ?case
  proof (cases "fire env s")
    case None
    with Suc.prems show ?thesis by simp
  next
    case (Some s')
    from hangs_fire [OF Suc.prems Some]
    have "hangs env s' b" and "\<exists>t\<in>set (timers s'). awaits k b t"
      by blast+
    from Suc.IH [OF batchInv_fire [OF Suc.prems(1) Some assms(2)] this] Some show ?thesis
      by simp
  qed
qed

lemma hanging_install_stalls:
  assumes "timers s0 = []" and "b \<in> set botNames" and "hangs env s0 b"
  shows "completed (run m env (installAll s0)) (nextCell s0) < length botNames"
proof -
  let ?k = "nextCell s0"
  have i0: "batchInv (\<lambda>e. True) ?k (now s0) (alerts s0) 0 0 (installAll s0)"
    using assms(1) by (rule installAll_batchInv)
  have h: "hangs env (installAll s0) b"
    using assms(3) by (simp add: hangs_def installAll_fields botPath_def)
  from assms(2) obtain i where i: "i < length botNames" "botNames ! i = b"
    by (auto simp: in_set_conv_nth)
  let ?t = "\<lparr>tid = nextTimer s0 + i, due = now s0 + i * 1000, period = None,
             handler = InstallTimer (botNames ! i) (InstallAllCallback ?k)\<rparr>"
  from i(1) have "?t \<in> set (timers (installAll s0))"
    by (simp add: installAll_fields)
  moreover from i(2) have "awaits ?k b ?t"
    by (simp add: awaits_def)
  ultimately have w: "\<exists>t\<in>set (timers (installAll s0)). awaits ?k b t"
    by blast
  from hangs_run [OF i0 startsOnly_True h w, of m] obtain t where
    "t \<in> set (timers (run m env (installAll s0)))" and "awaits ?k b t"
    by blast
  then have "0 < pending ?k (timers (run m env (installAll s0)))"
    by (rule awaits_pending)
  with batchInv_count [OF batchInv_run [OF i0 startsOnly_True, where m = m and env = env]] show ?thesis
    by simp
qed

lemma run_numeral:
  "run (numeral j) env s = (case fire env s of None \<Rightarrow> s | Some s' \<Rightarrow> run (pred_numeral j) env s')"
  by (simp add: numeral_eq_Suc)
section \<open>Properties of the numbers\<close>

text \<open>
  An integer below \<open>2 ^ 53\<close> in magnitude is a double, and it is printed with its own
  digits; a literal of \<open>2 ^ 1024\<close> or more is read as an infinity.
\<close>

lemma roundEven_of_int: "roundEven (of_int k) = k"
  by (simp add: roundEven_def)

lemma roundEven_ge:
  assumes "of_int k \<le> y"
  shows "k \<le> roundEven y"
proof -
  from assms have "k \<le> \<lfloor>y\<rfloor>"
    by (simp add: le_floor_iff)
  then show ?thesis
    by (simp add: roundEven_def Let_def)
qed

lemma floorlog_pos: "0 < n \<Longrightarrow> 1 < b \<Longrightarrow> 0 < floorlog b n"
  by (simp add: floorlog_def)

lemma ilog_nat: "0 < n \<Longrightarrow> ilog b (real n) = int (floorlog b n) - 1"
  by (simp add: ilog_def)

lemma digits_le:
  assumes "0 < n" and "n < b ^ k" and "1 < b"
  shows "floorlog b n \<le> k"
proof -
  from floorlog_bounds [where b = b and x = n] assms(1,3) have "b ^ (floorlog b n - 1) \<le> n"
    by simp
  from this assms(2) have "b ^ (floorlog b n - 1) < b ^ k"
    by (rule le_less_trans)
  with assms(3) have "floorlog b n - 1 < k"
    by (simp add: power_less_imp_less_exp)
  then show ?thesis by simp
qed

lemma toNumber_nat:
  assumes "0 < n" and "n < 2 ^ 53"
  shows "toNumber (real n) = Finite (real n)"
proof -
  define fl where "fl = floorlog 2 n"
  have fl: "0 < fl" "fl \<le> 53"
    using assms floorlog_pos [of n 2] digits_le [of n 2 53] by (simp_all add: fl_def)
  define d where "d = 53 - fl"
  have d: "d \<le> 52"
    using fl by (simp add: d_def)
  have e: "ilog 2 (real n) = 52 - int d"
    using assms(1) fl by (simp add: ilog_nat fl_def d_def)
  have m: "max (ilog 2 (real n)) (- 1022) - 52 = - int d"
    using d by (simp add: e)
  have q: "(2::real) powi (- int d) = 1 / 2 ^ d"
    by (simp add: power_int_def power_divide divide_simps)
  have x: "real n / (1 / 2 ^ d) = of_int (int (n * 2 ^ d))"
    by simp
  have r: "of_int (roundEven (real n / (1 / 2 ^ d))) * (1 / 2 ^ d) = real n"
    unfolding x roundEven_of_int by simp
  have b: "\<not> (2::real) ^ 1024 \<le> real n"
  proof -
    have "real n < 2 ^ 53"
      using assms(2) by (metis of_nat_less_iff of_nat_numeral of_nat_power)
    also have "\<dots> < (2::real) ^ 1024"
      by simp
    finally show ?thesis by simp
  qed
  have "toNumber (real n) = Finite (sgn (real n) * real n)"
    using assms(1) b unfolding toNumber_def Let_def
    by (simp only: abs_of_nat m q r) simp
  then show ?thesis
    using assms(1) by simp
qed

lemma rounded_lower:
  assumes "1 \<le> x"
  shows "(2::real) ^ (floorlog 2 (nat \<lfloor>x\<rfloor>) - 1)
           \<le> of_int (roundEven (x / 2 powi (max (ilog 2 x) (- 1022) - 52)))
               * 2 powi (max (ilog 2 x) (- 1022) - 52)"
proof -
  define h where "h = nat \<lfloor>x\<rfloor>"
  define fl where "fl = floorlog 2 h"
  define q :: real where "q = 2 powi (int fl - 53)"
  have h: "0 < h" "real h \<le> x"
    using assms by (simp_all add: h_def)
  have fl: "0 < fl"
    using h(1) floorlog_pos [of h 2] by (simp add: fl_def)
  have e: "max (ilog 2 x) (- 1022) - 52 = int fl - 53"
    using assms fl by (simp add: ilog_def fl_def h_def)
  have qpos: "0 < q"
    by (simp add: q_def)
  have split: "(2::real) ^ (fl - 1) = 2 ^ 52 * q"
  proof -
    have "(2::real) ^ (fl - 1) = 2 powi (int (fl - 1))"
      by simp
    also have "int (fl - 1) = 52 + (int fl - 53)"
      using fl by simp
    also have "(2::real) powi (52 + (int fl - 53)) = 2 powi 52 * 2 powi (int fl - 53)"
      by (rule power_int_add) simp
    finally show ?thesis
      by (simp add: q_def)
  qed
  from floorlog_bounds [where b = 2 and x = h] h(1) have "2 ^ (fl - 1) \<le> h"
    by (simp add: fl_def)
  then have "(2::real) ^ (fl - 1) \<le> real h"
    by (metis of_nat_le_iff of_nat_numeral of_nat_power)
  from this h(2) have "(2::real) ^ (fl - 1) \<le> x"
    by (rule order_trans)
  then have "2 ^ 52 * q \<le> x"
    by (simp only: split)
  then have "of_int (2 ^ 52) \<le> x / q"
    using qpos by (simp add: pos_le_divide_eq)
  then have "2 ^ 52 \<le> roundEven (x / q)"
    by (rule roundEven_ge)
  then have "(2::real) ^ 52 \<le> of_int (roundEven (x / q))"
    by (metis of_int_le_iff of_int_numeral of_int_power)
  then have "2 ^ 52 * q \<le> of_int (roundEven (x / q)) * q"
    using qpos by simp
  then have "2 ^ (fl - 1) \<le> of_int (roundEven (x / q)) * q"
    by (simp only: split)
  then show ?thesis
    unfolding e q_def fl_def h_def .
qed

lemma toNumber_lower:
  assumes "1 \<le> x" and "toNumber x = Finite r"
  shows "2 ^ (floorlog 2 (nat \<lfloor>x\<rfloor>) - 1) \<le> r"
proof -
  from assms have "r = of_int (roundEven (x / 2 powi (max (ilog 2 x) (- 1022) - 52)))
               * 2 powi (max (ilog 2 x) (- 1022) - 52)"
    unfolding toNumber_def Let_def
    by (simp split: if_splits)
  with rounded_lower [OF assms(1)] show ?thesis
    by simp
qed

lemma digits_gt:
  assumes "b ^ k \<le> n" and "1 < b"
  shows "k \<le> floorlog b n - 1"
proof -
  from assms have pos: "0 < n"
    by (metis less_le_trans zero_less_power zero_less_one less_trans)
  have "\<not> floorlog b n \<le> k"
  proof
    assume "floorlog b n \<le> k"
    with assms(2) have "b ^ floorlog b n \<le> b ^ k"
      by (simp add: power_increasing)
    moreover from floorlog_bounds [where b = b and x = n] pos assms(2) have "n < b ^ floorlog b n"
      by simp
    ultimately show False using assms(1) by simp
  qed
  then show ?thesis by simp
qed


lemma toNumber_nat_apart:
  assumes "n < 2 ^ 53" and "n < h"
  shows "toNumber (real h) \<noteq> Finite (real n)"
proof (cases "h < 2 ^ 53")
  case True
  with assms(2) have "toNumber (real h) = Finite (real h)"
    by (simp add: toNumber_nat)
  with assms(2) show ?thesis by simp
next
  case False
  then have h: "2 ^ 53 \<le> h" by simp
  show ?thesis
  proof
    assume a: "toNumber (real h) = Finite (real n)"
    from h have "1 \<le> h"
      by (metis less_le_trans zero_less_numeral zero_less_power less_eq_Suc_le One_nat_def)
    then have "1 \<le> real h"
      by simp
    from toNumber_lower [OF this a] have l: "2 ^ (floorlog 2 h - 1) \<le> real n"
      by simp
    from h have "53 \<le> floorlog 2 h - 1"
      by (rule digits_gt) simp
    then have "(2::real) ^ 53 \<le> 2 ^ (floorlog 2 h - 1)"
      by (rule power_increasing) simp
    from this l have "(2::real) ^ 53 \<le> real n"
      by (rule order_trans)
    then have "2 ^ 53 \<le> n"
      by (metis of_nat_le_iff of_nat_numeral of_nat_power)
    with assms(1) show False by simp
  qed
qed

lemma firstOf_append:
  assumes "\<forall>j\<in>set as. f j = None \<or> f j = Some v" and "f k = Some v"
  shows "firstOf f (as @ k # rest) = Some v"
  using assms by (induction as) (auto split: option.splits)

lemma toNumber_0: "toNumber 0 = Finite 0"
  by (simp add: toNumber_def)

lemma candidate_nat:
  assumes "0 < n" and "n < 2 ^ 53" and "k \<le> floorlog 10 n"
  shows "candidate (real n) k
           = (if n div 10 ^ (floorlog 10 n - k) * 10 ^ (floorlog 10 n - k) = n
              then Some (real n) else None)"
proof -
  define G :: nat where "G = 10 ^ (floorlog 10 n - k)"
  define lo where "lo = n div G * G"
  have G: "0 < G"
    by (simp add: G_def)
  have "ilog 10 (real n) + 1 - int k = int (floorlog 10 n - k)"
    using assms(1,3) by (simp add: ilog_nat)
  then have "(10::real) powi (ilog 10 (real n) + 1 - int k) = 10 ^ (floorlog 10 n - k)"
    by (simp only: power_int_of_nat)
  also have "\<dots> = real G"
    unfolding G_def by (simp only: of_nat_power of_nat_numeral)
  finally have g: "(10::real) powi (ilog 10 (real n) + 1 - int k) = real G" .
  have s: "\<lfloor>real n / real G\<rfloor> = int (n div G)"
    by (rule floor_divide_of_nat_eq)
  have lo: "of_int (int (n div G)) * real G = real lo"
    by (simp add: lo_def)
  have hi: "real lo + real G = real (lo + G)"
    by simp
  have le: "lo \<le> n"
    by (simp add: lo_def)
  have lt: "n < lo + G"
  proof -
    have "n = n div G * G + n mod G"
      by simp
    moreover have "n mod G < G"
      using G by simp
    ultimately show ?thesis
      unfolding lo_def by linarith
  qed
  have vhi: "(toNumber (real (lo + G)) = Finite (real n)) = False"
    using toNumber_nat_apart [OF assms(2) lt] by simp
  have vlo: "(toNumber (real lo) = Finite (real n)) = (lo = n)"
  proof (cases "lo = 0")
    case True
    have "toNumber (real lo) = Finite 0"
      unfolding True by (simp add: toNumber_0)
    with assms(1) True show ?thesis
      by simp
  next
    case False
    then have "0 < lo" by simp
    moreover from le assms(2) have "lo < 2 ^ 53" by (rule le_less_trans)
    ultimately have "toNumber (real lo) = Finite (real lo)"
      by (rule toNumber_nat)
    then show ?thesis by simp
  qed
  have "candidate (real n) k = (if lo = n then Some (real lo) else None)"
    unfolding candidate_def Let_def g s lo hi vhi vlo
    by (simp only: simp_thms if_False)
  then show ?thesis
    by (simp add: lo_def G_def)
qed

lemma shortest_nat:
  assumes "0 < n" and "n < 2 ^ 53"
  shows "shortest (real n) = real n"
proof -
  define D where "D = floorlog 10 n"
  have "(2::nat) ^ 53 < 10 ^ 16"
    by simp
  with assms(2) have "n < 10 ^ 16"
    by (rule less_trans)
  with assms(1) have D: "0 < D" "D \<le> 16"
    using floorlog_pos [of n 10] digits_le [of n 10 16] by (simp_all add: D_def)
  have before: "\<forall>j\<in>set [1..<D]. candidate (real n) j = None \<or> candidate (real n) j = Some (real n)"
    using assms by (simp add: candidate_nat D_def)
  have at: "candidate (real n) D = Some (real n)"
    using assms by (simp add: candidate_nat D_def)
  have "[1..<18] = [1..<D] @ [D..<18]"
    using D upt_add_eq_append [of 1 D "18 - D"] by simp
  also have "[D..<18] = D # [Suc D..<18]"
    using D by (simp add: upt_conv_Cons)
  finally have "firstOf (candidate (real n)) [1..<18] = Some (real n)"
    using firstOf_append [OF before at] by simp
  then show ?thesis
    by (simp add: shortest_def)
qed



text \<open>
  Numerals below \<open>2 ^ 53\<close> are read and printed as they stand. The integer after
  \<open>2 ^ 53\<close> lies half way between two doubles and is read as the even one, \<open>2 ^ 53\<close>,
  which is printed with its sixteen digits.
\<close>

lemma toNumber_numeral:
  "numeral k < (2::int) ^ 53 \<Longrightarrow> toNumber (numeral k) = Finite (numeral k)"
  using toNumber_nat [of "numeral k"]
  by (simp add: nat_less_iff flip: of_nat_less_iff [where ?'a = int])

lemma numberToJson_numeral:
  "numeral k < (2::int) ^ 53 \<Longrightarrow> numberToJson (Finite (numeral k)) = JNum (numeral k)"
  using shortest_nat [of "numeral k"]
  by (simp add: numberToJson_def flip: of_nat_less_iff [where ?'a = int])




section \<open>Properties of the configuration store\<close>

lemmas example_defs = exampleDisk_def exampleSettings_def defaultConfig_def
lemmas path_defs = settingsPath_def configPath_def botPath_def bs_def dq_def












lemma updateBotSettingsFor_currentDir:
  "currentDir (updateBotSettingsFor cfg s b) = currentDir s"
  by (simp add: updateBotSettingsFor_def logMessage_def split: option.splits content.splits sum.splits)

lemma updateBotSettingsFor_absent:
  "(files (updateBotSettingsFor cfg s b) f = None) = (files s f = None)"
  by (simp add: updateBotSettingsFor_def logMessage_def split: option.splits content.splits sum.splits)

lemma updateBotSettingsFor_missing:
  "files s (settingsPath s w) = None \<Longrightarrow> updateBotSettingsFor cfg s w = s"
  by (simp add: updateBotSettingsFor_def)

lemma settingsPath_step:
  "settingsPath (updateBotSettingsFor cfg s b) w = settingsPath s w"
  by (simp add: settingsPath_def updateBotSettingsFor_currentDir)




lemma updateBotSettings_loop_absent:
  "(files (foldl (updateBotSettingsFor cfg) s xs) f = None) = (files s f = None)"
  by (induction xs arbitrary: s) (simp_all add: updateBotSettingsFor_absent)

lemma updateBotSettings_loop_skip:
  "files s (settingsPath s w) = None \<Longrightarrow>
   foldl (updateBotSettingsFor cfg) s xs = foldl (updateBotSettingsFor cfg) s (filter (\<lambda>b. b \<noteq> w) xs)"
proof (induction xs arbitrary: s)
  case Nil
  then show ?case by simp
next
  case (Cons b xs)
  show ?case
  proof (cases "b = w")
    case True
    with Cons.prems have "updateBotSettingsFor cfg s b = s"
      by (simp add: updateBotSettingsFor_missing)
    with Cons.IH [OF Cons.prems] True show ?thesis by simp
  next
    case False
    let ?s1 = "updateBotSettingsFor cfg s b"
    from Cons.prems have "files ?s1 (settingsPath ?s1 w) = None"
      by (simp add: settingsPath_step updateBotSettingsFor_absent)
    from Cons.IH [OF this] False show ?thesis
      by simp
  qed
qed




text \<open>
  Claim C7, as amended. A bot whose settings document is missing is passed over: its
  round of the loop leaves the state as it is (no log entry, no file made, no error), and
  the whole propagation is the propagation over the other bots.
\<close>

theorem propagation_skips_missing:
  assumes "files s (settingsPath s w) = None"
  shows "updateBotSettingsFor cfg s w = s
       \<and> updateBotSettings cfg s
           = foldl (updateBotSettingsFor cfg) s (filter (\<lambda>b. b \<noteq> w) botNames)
       \<and> files (updateBotSettings cfg s) (settingsPath s w) = None"
  using assms updateBotSettings_loop_skip [OF assms, of cfg botNames]
  by (simp add: updateBotSettings_def updateBotSettingsFor_missing updateBotSettings_loop_absent)



text \<open>
  The claim as stated (the skip is logged) fails: on the example disk \<^verbatim>\<open>MC1\<close>, \<^verbatim>\<open>MC3\<close>
  and \<^verbatim>\<open>MC4\<close> have no settings document, and the only log entry after propagation is
  the one of \<^verbatim>\<open>MC2\<close>.
\<close>

theorem propagation_skip_is_not_logged:
  "files exampleDisk (settingsPath exampleDisk ''MC1'') = None
   \<and> logs (updateBotSettings (server defaultConfig) exampleDisk) = [(0, ''MC2: Settings updated'', Success)]"
  by (simp add: updateBotSettings_def botNames_def updateBotSettingsFor_def example_defs path_defs
      applyServerConfig_def bindE_def logMessage_def)

theorem propagation_skips_missing_witness:
  "files exampleDisk (settingsPath exampleDisk ''MC1'') = None
   \<and> updateBotSettingsFor (server defaultConfig) exampleDisk ''MC1'' = exampleDisk
   \<and> updateBotSettings (server defaultConfig) exampleDisk
       = foldl (updateBotSettingsFor (server defaultConfig)) exampleDisk [''MC2'', ''MC3'', ''MC4'']
   \<and> files (updateBotSettings (server defaultConfig) exampleDisk) (settingsPath exampleDisk ''MC1'') = None
   \<and> (\<exists>d'. files (updateBotSettings (server defaultConfig) exampleDisk) (settingsPath exampleDisk ''MC2'')
              = Some (Json d')
            \<and> getPath d' [''server'', ''ip''] = Some (JStr ''play.pika-network.net''))"
proof -
  have f: "files exampleDisk (settingsPath exampleDisk ''MC1'') = None"
    by (simp add: example_defs path_defs)
  have "files (foldl (updateBotSettingsFor (server defaultConfig)) exampleDisk [''MC2'', ''MC3'', ''MC4''])
          (settingsPath exampleDisk ''MC2'')
        = Some (Json (JObj [(''server'', JObj [(''ip'', JStr ''play.pika-network.net''),
             (''version'', JStr ''1.18.1''), (''port'', JNum 25565)]),
           (''utils'', JObj [(''chat-messages'',
              JObj [(''enabled'', JBool True),
                    (''messages'', JArr [JStr ''/login password'', JStr ''/server survival'', JStr ''/home base'']),
                    (''repeat'', JBool True), (''repeat-delay'', JNum 6)])]),
           (''customField'', JNum 42)]))"
    by (simp add: updateBotSettingsFor_def example_defs path_defs
        applyServerConfig_def bindE_def logMessage_def toNumber_numeral numberToJson_numeral)
  moreover have a: "updateBotSettingsFor (server defaultConfig) exampleDisk ''MC1'' = exampleDisk"
    and b: "updateBotSettings (server defaultConfig) exampleDisk
       = foldl (updateBotSettingsFor (server defaultConfig)) exampleDisk [''MC2'', ''MC3'', ''MC4'']"
    and c: "files (updateBotSettings (server defaultConfig) exampleDisk) (settingsPath exampleDisk ''MC1'') = None"
    using propagation_skips_missing [OF f, of "server defaultConfig"]
    by (auto simp: botNames_def)
  ultimately show ?thesis
    using f by (simp only: b) simp
qed

lemma createDefaultConfig_files:
  "files (createDefaultConfig s) = (files s)(configPath s \<mapsto> Json (configJson defaultConfig))"
  by (simp add: createDefaultConfig_def renderBotConfigs_def entries_def accountsJson_def defaultConfig_def
      accountJson_def Let_def)

lemma createDefaultConfig_indicators:
  "statusIndicator (createDefaultConfig s)
     = [''MC1'' \<mapsto> Stopped, ''MC2'' \<mapsto> Stopped, ''MC3'' \<mapsto> Stopped, ''MC4'' \<mapsto> Stopped]"
  by (simp add: createDefaultConfig_def renderBotConfigs_def entries_def accountsJson_def defaultConfig_def
      accountJson_def Let_def)

text \<open>
  Claim C6. When \<^verbatim>\<open>global_config.json\<close> is absent, \<^verbatim>\<open>loadConfig\<close> writes the default
  document there and changes no other file; the default has exactly the four accounts
  \<^verbatim>\<open>MC1\<close> to \<^verbatim>\<open>MC4\<close>, all offline with empty passwords, and the server block with the
  address, version, three messages, repeat flag and delay given below; the page then
  shows the four cards, all stopped.
\<close>

theorem load_creates_default:
  assumes "files s (configPath s) = None"
  shows "files (loadConfig s) = (files s)(configPath s \<mapsto> Json (configJson defaultConfig))
       \<and> map fst (accounts defaultConfig) = [''MC1'', ''MC2'', ''MC3'', ''MC4'']
       \<and> map (type \<circ> snd) (accounts defaultConfig) = [Offline, Offline, Offline, Offline]
       \<and> map (password \<circ> snd) (accounts defaultConfig) = ['''', '''', '''', '''']
       \<and> server defaultConfig
           = \<lparr>ip = ''play.pika-network.net'', version = ''1.18.1'',
              chatMessages = [''/login password'', ''/server survival'', ''/home base''],
              repeat = True, repeatDelay = 6\<rparr>
       \<and> configJson defaultConfig
           = JObj [(''accounts'',
                    JObj [(''MC1'', JObj [(''username'', JStr ''Bot1''), (''password'', JStr ''''),
                                          (''type'', JStr ''offline'')]),
                          (''MC2'', JObj [(''username'', JStr ''Bot2''), (''password'', JStr ''''),
                                          (''type'', JStr ''offline'')]),
                          (''MC3'', JObj [(''username'', JStr ''Bot3''), (''password'', JStr ''''),
                                          (''type'', JStr ''offline'')]),
                          (''MC4'', JObj [(''username'', JStr ''Bot4''), (''password'', JStr ''''),
                                          (''type'', JStr ''offline'')])]),
                   (''server'',
                    JObj [(''ip'', JStr ''play.pika-network.net''), (''version'', JStr ''1.18.1''),
                          (''chatMessages'',
                           JArr [JStr ''/login password'', JStr ''/server survival'', JStr ''/home base'']),
                          (''repeat'', JBool True), (''repeatDelay'', JNum 6)])]
       \<and> statusIndicator (loadConfig s)
           = [''MC1'' \<mapsto> Stopped, ''MC2'' \<mapsto> Stopped, ''MC3'' \<mapsto> Stopped, ''MC4'' \<mapsto> Stopped]"
proof -
  have "loadConfig s
          = createDefaultConfig
              (logMessage ''Config file not found, creating default...'' Warning
                (logMessage (''Loading configuration from: '' @ configPath s) Info s))"
    using assms by (simp add: loadConfig_def Let_def)
  then show ?thesis
    by (simp add: createDefaultConfig_files createDefaultConfig_indicators configPath_def)
       (simp add: defaultConfig_def configJson_def configObject_def accountsJson_def accountJson_def
          serverJson_def toNumber_numeral numberToJson_numeral)
qed

theorem load_creates_default_witness:
  "files exampleDisk (configPath exampleDisk) = None
   \<and> files (loadConfig exampleDisk) (configPath exampleDisk) = Some (Json (configJson defaultConfig))
   \<and> length (accounts defaultConfig) = 4
   \<and> length (chatMessages (server defaultConfig)) = 3
   \<and> logs (loadConfig exampleDisk)
       = [(0, ''Loading configuration from: C:'' @ bs @ ''global_config.json'', Info),
          (0, ''Config file not found, creating default...'', Warning),
          (0, ''Default configuration created!'', Success)]"
proof -
  have f: "files exampleDisk (configPath exampleDisk) = None"
    by (simp add: exampleDisk_def configPath_def bs_def)
  have l: "logs (loadConfig exampleDisk)
       = [(0, ''Loading configuration from: C:'' @ bs @ ''global_config.json'', Info),
          (0, ''Config file not found, creating default...'', Warning),
          (0, ''Default configuration created!'', Success)]"
    by (simp add: loadConfig_def f createDefaultConfig_def renderBotConfigs_def entries_def accountsJson_def
        defaultConfig_def accountJson_def Let_def)
       (simp add: exampleDisk_def configPath_def)
  from load_creates_default [OF f] f l show ?thesis
    by (simp add: defaultConfig_def)
qed

section \<open>Properties of the process supervisor\<close>


lemmas host_defs = goodHost_def idleHost_def brokenHost_def mixedHost_def

text \<open>
  Claim C1, as amended. Whenever \<^verbatim>\<open>shell.Run\<close> returns from launching the kill command,
  \<^verbatim>\<open>stopBot\<close> leaves the bot untracked and its status indicator, if the page has one, at
  stopped, whether or not the kill then succeeds (\<open>ok\<close>). When the launch raises,
  \<^verbatim>\<open>stopBot\<close> only logs: tracking and status stay as they were.
\<close>

theorem stopBot_resets:
  "(Run env (now s) (stopCommand w) = Launched ok \<longrightarrow>
      runningProcesses (stopBot env w s) w = Some False
      \<and> statusIndicator (stopBot env w s) w = map_option (\<lambda>_. Stopped) (statusIndicator s w))
   \<and> (Run env (now s) (stopCommand w) = RunRaised m \<longrightarrow>
      runningProcesses (stopBot env w s) = runningProcesses s
      \<and> statusIndicator (stopBot env w s) = statusIndicator s)"
  by (auto simp: stopBot_def logMessage_def updateStatus_def Let_def)

theorem stopBot_resets_witness:
  "Run idleHost (now examplePage) (stopCommand ''MC1'') = Launched False
   \<and> runningProcesses examplePage ''MC1'' = Some True
   \<and> statusIndicator examplePage ''MC1'' = Some Running
   \<and> runningProcesses (stopBot idleHost ''MC1'' examplePage) ''MC1'' = Some False
   \<and> statusIndicator (stopBot idleHost ''MC1'' examplePage) ''MC1'' = Some Stopped
   \<and> Run brokenHost (now examplePage) (stopCommand ''MC1'')
        = RunRaised ''The system cannot find the file specified.''
   \<and> runningProcesses (stopBot brokenHost ''MC1'' examplePage) = runningProcesses examplePage
   \<and> statusIndicator (stopBot brokenHost ''MC1'' examplePage) = statusIndicator examplePage"
  using stopBot_resets [of idleHost examplePage "''MC1''" False]
    stopBot_resets [of brokenHost examplePage "''MC1''" _ "''The system cannot find the file specified.''"]
  by (simp add: host_defs examplePage_def)

text \<open>
  The claim as stated fails when the kill command cannot be launched: the bot stays
  tracked as running and its indicator stays at running.
\<close>

theorem stopBot_launch_failure_keeps_running:
  "runningProcesses (stopBot brokenHost ''MC1'' examplePage) ''MC1'' = Some True
   \<and> statusIndicator (stopBot brokenHost ''MC1'' examplePage) ''MC1'' = Some Running
   \<and> logs (stopBot brokenHost ''MC1'' examplePage)
       = [(1000, ''MC1: Stopping bot...'', Warning),
          (1000, ''MC1: Stop error - The system cannot find the file specified.'', Error)]"
  by (simp add: stopBot_def logMessage_def host_defs examplePage_def Let_def updateStatus_def)

text \<open>
  Claim C2. When the poll of \<^verbatim>\<open>installBot\<close> finds the install process ended, with any
  exit code \<open>c\<close>, the status indicator of the bot (if the page has one) is set to
  stopped, no other indicator changes, and the bot's tracking is untouched, so it can be
  started afterwards either way.
\<close>

theorem install_exit_resets_status:
  assumes "x \<le> now s"
  shows "statusIndicator (checkInstall w \<lparr>exitsAt = Some x, ExitCode = c\<rparr> cb i s) w
           = map_option (\<lambda>_. Stopped) (statusIndicator s w)
       \<and> (\<forall>b. b \<noteq> w \<longrightarrow>
            statusIndicator (checkInstall w \<lparr>exitsAt = Some x, ExitCode = c\<rparr> cb i s) b = statusIndicator s b)
       \<and> runningProcesses (checkInstall w \<lparr>exitsAt = Some x, ExitCode = c\<rparr> cb i s) = runningProcesses s"
  using assms
  by (auto simp: checkInstall_def Status_def call_def completionCallback_def setTimeout_def
      clearInterval_def logMessage_def updateStatus_def Let_def split: option.splits callback.splits)

theorem install_exit_resets_status_witness:
  "statusIndicator (updateStatus ''MC3'' Installing examplePage) ''MC3'' = Some Installing
   \<and> statusIndicator (checkInstall ''MC3'' \<lparr>exitsAt = Some 900, ExitCode = 0\<rparr> None 0
                        (updateStatus ''MC3'' Installing examplePage)) ''MC3'' = Some Stopped
   \<and> statusIndicator (checkInstall ''MC3'' \<lparr>exitsAt = Some 900, ExitCode = 1\<rparr> None 0
                        (updateStatus ''MC3'' Installing examplePage)) ''MC3'' = Some Stopped
   \<and> runningProcesses (checkInstall ''MC3'' \<lparr>exitsAt = Some 900, ExitCode = 1\<rparr> None 0
                        (updateStatus ''MC3'' Installing examplePage)) ''MC3'' = None"
  using install_exit_resets_status [of 900 "updateStatus ''MC3'' Installing examplePage" "''MC3''" 0 None 0]
    install_exit_resets_status [of 900 "updateStatus ''MC3'' Installing examplePage" "''MC3''" 1 None 0]
  by (simp add: examplePage_def)

text \<open>
  Claim C4, as amended. For a bot tracked as running, \<^verbatim>\<open>startBot\<close> changes nothing but
  the log: status, tracking, launched commands and timers stay as they were. The one
  log entry is the warning that the bot is already running when the bot's folder
  exists, and the error that the folder was not found when it does not. In particular a
  start that follows at once on the start that made the bot tracked logs the warning.
\<close>

theorem second_start_is_noop:
  "(runningProcesses s w = Some True \<longrightarrow>
      startBot env w s
        = logMessage (if botPath s w \<in> folders s then w @ '': Bot is already running!''
                      else w @ '': Folder not found!'')
            (if botPath s w \<in> folders s then Warning else Error) s
      \<and> statusIndicator (startBot env w s) = statusIndicator s
      \<and> runningProcesses (startBot env w s) = runningProcesses s
      \<and> launched (startBot env w s) = launched s
      \<and> timers (startBot env w s) = timers s)
   \<and> (runningProcesses s w \<noteq> Some True \<and> runningProcesses (startBot env w s) w = Some True \<longrightarrow>
      startBot env' w (startBot env w s)
        = logMessage (w @ '': Bot is already running!'') Warning (startBot env w s))"
proof -
  have "startBot env' w (startBot env w s)
          = logMessage (w @ '': Bot is already running!'') Warning (startBot env w s)"
    if "runningProcesses s w \<noteq> Some True" and "runningProcesses (startBot env w s) w = Some True"
    using that
    by (cases "Run env (now s) (startCommand w (botPath s w))")
       (simp_all add: startBot_def botPath_def Let_def split: if_splits)
  then show ?thesis
    by (simp add: startBot_def Let_def)
qed

theorem second_start_is_noop_witness:
  "runningProcesses examplePage ''MC1'' = Some True
   \<and> startBot goodHost ''MC1'' examplePage
       = logMessage ''MC1: Bot is already running!'' Warning examplePage
   \<and> runningProcesses examplePage ''MC2'' = Some True
   \<and> startBot goodHost ''MC2'' examplePage = logMessage ''MC2: Folder not found!'' Error examplePage
   \<and> runningProcesses examplePage ''MC3'' = None
   \<and> runningProcesses (startBot goodHost ''MC3'' examplePage) ''MC3'' = Some True
   \<and> startBot goodHost ''MC3'' (startBot goodHost ''MC3'' examplePage)
       = logMessage ''MC3: Bot is already running!'' Warning (startBot goodHost ''MC3'' examplePage)"
proof -
  have r: "runningProcesses examplePage ''MC1'' = Some True"
    "runningProcesses examplePage ''MC2'' = Some True"
    "runningProcesses examplePage ''MC3'' = None"
    and f: "botPath examplePage ''MC1'' \<in> folders examplePage"
    "botPath examplePage ''MC2'' \<notin> folders examplePage"
    by (simp_all add: examplePage_def botPath_def bs_def)
  have s3: "runningProcesses (startBot goodHost ''MC3'' examplePage) ''MC3'' = Some True"
    by (simp add: startBot_def Let_def goodHost_def examplePage_def botPath_def bs_def)
  from second_start_is_noop [of examplePage "''MC1''" goodHost goodHost]
    second_start_is_noop [of examplePage "''MC2''" goodHost goodHost]
    second_start_is_noop [of examplePage "''MC3''" goodHost goodHost] r f s3
  show ?thesis
    by simp
qed

text \<open>
  The claim as stated fails for a bot that is tracked as running while its folder is
  gone: the second start logs the error that the folder was not found, not a warning.
\<close>

theorem second_start_without_folder_logs_error:
  "runningProcesses examplePage ''MC2'' = Some True
   \<and> logs (startBot goodHost ''MC2'' examplePage) = [(1000, ''MC2: Folder not found!'', Error)]"
  by (simp add: startBot_def examplePage_def botPath_def bs_def)

section \<open>Properties of the batch operations\<close>

lemma botNames_nth_inj:
  "i < length botNames \<Longrightarrow> j < length botNames \<Longrightarrow> botNames ! i = botNames ! j \<Longrightarrow> i = j"
  by (rule nth_eq_iff_index_eq [THEN iffD1]) (simp_all add: botNames_def)

text \<open>
  Claim C5. On a page without pending timers, \<^verbatim>\<open>installAll\<close> sets one timeout per bot, bot
  \<open>i\<close> due \<open>i\<close> seconds after the call. Whatever the host does and however long the
  installs take, a delayed install only ever fires at its due time, so the install of
  bot \<open>i\<close> is issued \<open>i * 1000\<close> ms after that of bot 0. At every moment of the run the
  counter and the installs that have not yet reported add up to the number of bots, and
  the announcement is pending or shown exactly when the counter equals the number of
  bots: the signal depends on the count alone, not on which bot reported when.
\<close>

theorem installAll_staggered_and_counted:
  "timers (installAll s0)
     = timers s0 @ map (\<lambda>i. \<lparr>tid = nextTimer s0 + i, due = now s0 + i * 1000, period = None,
                             handler = InstallTimer (botNames ! i) (InstallAllCallback (nextCell s0))\<rparr>)
                   [0..<length botNames]
   \<and> (timers s0 = [] \<longrightarrow>
        (\<forall>t b c. (t, InstallTimer b c) \<in> set (firings m env (installAll s0)) \<longrightarrow>
             (\<exists>i<length botNames. b = botNames ! i \<and> t = now s0 + i * 1000))
        \<and> (\<forall>t0 c0 t i c. i < length botNames
             \<and> (t0, InstallTimer (botNames ! 0) c0) \<in> set (firings m env (installAll s0))
             \<and> (t, InstallTimer (botNames ! i) c) \<in> set (firings m env (installAll s0)) \<longrightarrow>
             t = t0 + i * 1000)
        \<and> completed (run m env (installAll s0)) (nextCell s0)
            + pending (nextCell s0) (timers (run m env (installAll s0))) = length botNames
        \<and> ((\<exists>t\<in>set (timers (run m env (installAll s0))). handler t = AllInstalled)
             \<or> alerts (run m env (installAll s0)) \<noteq> alerts s0)
            = (completed (run m env (installAll s0)) (nextCell s0) = length botNames))"
proof -
  have "(\<forall>t b c. (t, InstallTimer b c) \<in> set (firings m env (installAll s0)) \<longrightarrow>
             (\<exists>i<length botNames. b = botNames ! i \<and> t = now s0 + i * 1000))
        \<and> (\<forall>t0 c0 t i c. i < length botNames
             \<and> (t0, InstallTimer (botNames ! 0) c0) \<in> set (firings m env (installAll s0))
             \<and> (t, InstallTimer (botNames ! i) c) \<in> set (firings m env (installAll s0)) \<longrightarrow>
             t = t0 + i * 1000)
        \<and> completed (run m env (installAll s0)) (nextCell s0)
            + pending (nextCell s0) (timers (run m env (installAll s0))) = length botNames
        \<and> ((\<exists>t\<in>set (timers (run m env (installAll s0))). handler t = AllInstalled)
             \<or> alerts (run m env (installAll s0)) \<noteq> alerts s0)
            = (completed (run m env (installAll s0)) (nextCell s0) = length botNames)"
    if quiet: "timers s0 = []"
  proof -
    let ?k = "nextCell s0" and ?P = "\<lambda>e::exec. True"
    have i0: "batchInv ?P ?k (now s0) (alerts s0) 0 0 (installAll s0)"
      using quiet by (rule installAll_batchInv)
    have st: "startsOnly env ?P" by (rule startsOnly_True)
    have fi: "\<exists>i<length botNames. b = botNames ! i \<and> t = now s0 + i * 1000"
      if "(t, InstallTimer b c) \<in> set (firings m env (installAll s0))" for t b c
      using i0 st that by (rule firings_installs)
    have rel: "t = t0 + i * 1000"
      if "i < length botNames"
        and "(t0, InstallTimer (botNames ! 0) c0) \<in> set (firings m env (installAll s0))"
        and "(t, InstallTimer (botNames ! i) c) \<in> set (firings m env (installAll s0))" for t0 c0 t i c
    proof -
      from fi [OF that(2)] obtain j where j: "j < length botNames" "botNames ! 0 = botNames ! j"
        "t0 = now s0 + j * 1000" by blast
      from fi [OF that(3)] obtain l where l: "l < length botNames" "botNames ! i = botNames ! l"
        "t = now s0 + l * 1000" by blast
      from j have "j = 0" using botNames_nth_inj [of 0 j] by (simp add: botNames_def)
      moreover from l that(1) have "l = i" using botNames_nth_inj [of i l] by simp
      ultimately show ?thesis using j l by simp
    qed
    have ir: "batchInv ?P ?k (now s0) (alerts s0) 0 0 (run m env (installAll s0))"
      using i0 st by (rule batchInv_run)
    show ?thesis
      using fi rel batchInv_count [OF ir] batchInv_announced [OF ir]
      by blast
  qed
  moreover have "timers (installAll s0)
     = timers s0 @ map (\<lambda>i. \<lparr>tid = nextTimer s0 + i, due = now s0 + i * 1000, period = None,
                             handler = InstallTimer (botNames ! i) (InstallAllCallback (nextCell s0))\<rparr>)
                   [0..<length botNames]"
    by (simp add: installAll_fields)
  ultimately show ?thesis
    by blast
qed

text \<open>
  Claim C9, as amended. \<^verbatim>\<open>installBot\<close> calls the completion function it is given exactly
  once on every path that ends: at once when the folder or the \<^verbatim>\<open>package.json\<close> is
  missing or the shell raises (the counter goes up by one and no timer is left that
  would report again), and otherwise not in the call itself but in the one poll that
  finds the process ended, which also clears its own interval; a poll that finds the
  process running changes nothing, and without a completion function no counter moves.
  Hence, when \<^verbatim>\<open>installAll\<close> is called with no timer pending on a host where every install
  process ends, the timers run out with the counter at the number of bots and the
  progress at 100. When the install of one bot hangs, the counter stays below the number
  of bots for ever.
\<close>

theorem install_reports_once:
  "(botPath s b \<notin> folders s \<or> files s (botPath s b @ bs @ ''package.json'') = None
      \<or> (\<exists>msg. Exec env (now s) (installCommand (botPath s b)) = ExecRaised msg) \<longrightarrow>
      completed (installBot env b (Some (InstallAllCallback k)) s) k = completed s k + 1
      \<and> filter (\<lambda>t. reports k t = 1) (timers (installBot env b (Some (InstallAllCallback k)) s))
          = filter (\<lambda>t. reports k t = 1) (timers s))
   \<and> (botPath s b \<in> folders s \<and> files s (botPath s b @ bs @ ''package.json'') \<noteq> None
      \<and> Exec env (now s) (installCommand (botPath s b)) = ExecStarted e \<longrightarrow>
      completed (installBot env b cb s) = completed s
      \<and> timers (installBot env b cb s)
          = timers s @ [\<lparr>tid = nextTimer s, due = now s + 500, period = Some 500,
                          handler = CheckInstall b e cb\<rparr>])
   \<and> (Status e (now s) \<noteq> 1 \<longrightarrow> checkInstall b e cb i s = s)
   \<and> (Status e (now s) = 1 \<longrightarrow>
      completed (checkInstall b e (Some (InstallAllCallback k)) i s) k = completed s k + 1
      \<and> (i < nextTimer s \<longrightarrow>
           i \<notin> tid ` set (timers (checkInstall b e (Some (InstallAllCallback k)) i s))))
   \<and> completed (installBot env b None s) = completed s
   \<and> completed (checkInstall b e None i s) = completed s
   \<and> (timers s0 = [] \<and> installsEnd env \<longrightarrow>
        (\<exists>m. timers (run m env (installAll s0)) = []
           \<and> completed (run m env (installAll s0)) (nextCell s0) = length botNames
           \<and> progressFill (run m env (installAll s0)) = 100))
   \<and> (timers s0 = [] \<and> h \<in> set botNames \<and> hangs env s0 h \<longrightarrow>
        completed (run n env (installAll s0)) (nextCell s0) < length botNames)"
proof -
  have stall: "completed (run n env (installAll s0)) (nextCell s0) < length botNames"
    if "timers s0 = []" and "h \<in> set botNames" and "hangs env s0 h"
    using that by (rule hanging_install_stalls)
  have live: "\<exists>m. timers (run m env (installAll s0)) = []
           \<and> completed (run m env (installAll s0)) (nextCell s0) = length botNames
           \<and> progressFill (run m env (installAll s0)) = 100"
    if "timers s0 = []" and "installsEnd env"
  proof -
    let ?P = "\<lambda>e. exitsAt e \<noteq> None"
    from that(2) have st: "startsOnly env ?P" by (simp add: installsEnd_def)
    have i0: "batchInv ?P (nextCell s0) (now s0) (alerts s0) 0 0 (installAll s0)"
      using that(1) by (rule installAll_batchInv)
    from batch_finishes [OF i0 st] obtain m where m: "timers (run m env (installAll s0)) = []"
      by blast
    from batchInv_done [OF batchInv_run [OF i0 st] m] m show ?thesis
      by blast
  qed
  have sync: "completed (installBot env b (Some (InstallAllCallback k)) s) k = completed s k + 1
      \<and> filter (\<lambda>t. reports k t = 1) (timers (installBot env b (Some (InstallAllCallback k)) s))
          = filter (\<lambda>t. reports k t = 1) (timers s)"
    if "botPath s b \<notin> folders s \<or> files s (botPath s b @ bs @ ''package.json'') = None
      \<or> (\<exists>msg. Exec env (now s) (installCommand (botPath s b)) = ExecRaised msg)"
    using that by (auto simp: installBot_def Let_def call_def)
  have started: "completed (installBot env b cb s) = completed s
      \<and> timers (installBot env b cb s)
          = timers s @ [\<lparr>tid = nextTimer s, due = now s + 500, period = Some 500,
                          handler = CheckInstall b e cb\<rparr>]"
    if "botPath s b \<in> folders s" and "files s (botPath s b @ bs @ ''package.json'') \<noteq> None"
      and "Exec env (now s) (installCommand (botPath s b)) = ExecStarted e"
    using that by (auto simp: installBot_def Let_def)
  have waiting: "checkInstall b e cb i s = s" if "Status e (now s) \<noteq> 1"
    using that by (simp add: checkInstall_def)
  have ended: "completed (checkInstall b e (Some (InstallAllCallback k)) i s) k = completed s k + 1
      \<and> (i < nextTimer s \<longrightarrow>
           i \<notin> tid ` set (timers (checkInstall b e (Some (InstallAllCallback k)) i s)))"
    if "Status e (now s) = 1"
    using that by (auto simp: checkInstall_def Let_def call_def)
  have none: "completed (installBot env b None s) = completed s"
    "completed (checkInstall b e None i s) = completed s"
    by (simp_all add: installBot_def checkInstall_def Let_def call_def split: exec_outcome.splits)
  from live sync started waiting ended none stall show ?thesis
    by blast
qed


lemmas run_defs = fire_def earlier_def rearm_def runTask_def installBot_def checkInstall_def call_def
  completionCallback_def setTimeout_def setInterval_def clearInterval_def logMessage_def updateStatus_def
  installAll_def allInstalled_def alert_def Status_def botNames_def Let_def installCommand_def
  botPath_def bs_def dq_def upt_rec startBot_def stopBot_def startCommand_def stopCommand_def
  startAllBots_def stopAllBots_def

lemma rounds:
  "8 = Suc (Suc (Suc (Suc (Suc (Suc (Suc (Suc (0))))))))"
  "11 = Suc (Suc (Suc (Suc (Suc (Suc (Suc (Suc (Suc (Suc (Suc (0)))))))))))"
  "12 = Suc (Suc (Suc (Suc (Suc (Suc (Suc (Suc (Suc (Suc (Suc (Suc (0))))))))))))"
  by simp_all

theorem installAll_staggered_and_counted_witness:
  "timers examplePage = []
   \<and> firings 12 goodHost (installAll examplePage)
       = [(1000, InstallTimer ''MC1'' (InstallAllCallback 0)),
          (2000, InstallTimer ''MC2'' (InstallAllCallback 0)),
          (3000, InstallTimer ''MC3'' (InstallAllCallback 0)),
          (3500, CheckInstall ''MC3'' \<lparr>exitsAt = Some 5700, ExitCode = 0\<rparr> (Some (InstallAllCallback 0))),
          (4000, InstallTimer ''MC4'' (InstallAllCallback 0)),
          (4000, CheckInstall ''MC3'' \<lparr>exitsAt = Some 5700, ExitCode = 0\<rparr> (Some (InstallAllCallback 0))),
          (4500, CheckInstall ''MC3'' \<lparr>exitsAt = Some 5700, ExitCode = 0\<rparr> (Some (InstallAllCallback 0))),
          (4500, CheckInstall ''MC4'' \<lparr>exitsAt = Some 4300, ExitCode = 1\<rparr> (Some (InstallAllCallback 0))),
          (5000, CheckInstall ''MC3'' \<lparr>exitsAt = Some 5700, ExitCode = 0\<rparr> (Some (InstallAllCallback 0))),
          (5500, CheckInstall ''MC3'' \<lparr>exitsAt = Some 5700, ExitCode = 0\<rparr> (Some (InstallAllCallback 0))),
          (6000, CheckInstall ''MC3'' \<lparr>exitsAt = Some 5700, ExitCode = 0\<rparr> (Some (InstallAllCallback 0))),
          (7000, AllInstalled)]
   \<and> completed (run 8 goodHost (installAll examplePage)) 0 = 3
   \<and> alerts (run 8 goodHost (installAll examplePage)) = []
   \<and> pending 0 (timers (run 8 goodHost (installAll examplePage))) = 1
   \<and> completed (run 11 goodHost (installAll examplePage)) 0 = 4
   \<and> map handler (timers (run 11 goodHost (installAll examplePage))) = [AllInstalled]
   \<and> alerts (run 12 goodHost (installAll examplePage)) = [''All dependencies installed successfully!'']"
proof -
  have e: "timers examplePage = []" and k: "nextCell examplePage = 0"
    by (simp_all add: examplePage_def)
  have f: "firings 12 goodHost (installAll examplePage)
       = [(1000, InstallTimer ''MC1'' (InstallAllCallback 0)),
          (2000, InstallTimer ''MC2'' (InstallAllCallback 0)),
          (3000, InstallTimer ''MC3'' (InstallAllCallback 0)),
          (3500, CheckInstall ''MC3'' \<lparr>exitsAt = Some 5700, ExitCode = 0\<rparr> (Some (InstallAllCallback 0))),
          (4000, InstallTimer ''MC4'' (InstallAllCallback 0)),
          (4000, CheckInstall ''MC3'' \<lparr>exitsAt = Some 5700, ExitCode = 0\<rparr> (Some (InstallAllCallback 0))),
          (4500, CheckInstall ''MC3'' \<lparr>exitsAt = Some 5700, ExitCode = 0\<rparr> (Some (InstallAllCallback 0))),
          (4500, CheckInstall ''MC4'' \<lparr>exitsAt = Some 4300, ExitCode = 1\<rparr> (Some (InstallAllCallback 0))),
          (5000, CheckInstall ''MC3'' \<lparr>exitsAt = Some 5700, ExitCode = 0\<rparr> (Some (InstallAllCallback 0))),
          (5500, CheckInstall ''MC3'' \<lparr>exitsAt = Some 5700, ExitCode = 0\<rparr> (Some (InstallAllCallback 0))),
          (6000, CheckInstall ''MC3'' \<lparr>exitsAt = Some 5700, ExitCode = 0\<rparr> (Some (InstallAllCallback 0))),
          (7000, AllInstalled)]"
    unfolding rounds by (simp add: run_defs examplePage_def goodHost_def percentOf_eq)
  have r8: "completed (run 8 goodHost (installAll examplePage)) 0 = 3"
      "alerts (run 8 goodHost (installAll examplePage)) = []"
    unfolding rounds by (simp_all add: run_defs examplePage_def goodHost_def percentOf_eq)
  have r11: "completed (run 11 goodHost (installAll examplePage)) 0 = 4"
      "map handler (timers (run 11 goodHost (installAll examplePage))) = [AllInstalled]"
    unfolding rounds by (simp_all add: run_defs examplePage_def goodHost_def percentOf_eq)
  have r12: "alerts (run 12 goodHost (installAll examplePage)) = [''All dependencies installed successfully!'']"
    unfolding rounds by (simp add: run_defs examplePage_def goodHost_def percentOf_eq)
  from installAll_staggered_and_counted [of examplePage 8 goodHost] e r8
  have "pending 0 (timers (run 8 goodHost (installAll examplePage))) = 1"
    unfolding k by (simp add: botNames_def)
  with e f r8 r11 r12 show ?thesis by blast
qed

lemma length_botNames: "length botNames = 4"
  by (simp add: botNames_def)

lemma showInt_1: "showInt 1 = ''1''"
  by code_simp

theorem install_reports_once_witness:
  "completed (installBot mixedHost ''MC2'' (Some (InstallAllCallback 0)) examplePage) 0 = 1
   \<and> completed (installBot mixedHost ''MC1'' (Some (InstallAllCallback 0)) examplePage) 0 = 1
   \<and> completed (installBot mixedHost ''MC3'' (Some (InstallAllCallback 0)) examplePage) 0 = 1
   \<and> completed (installBot mixedHost ''MC4'' (Some (InstallAllCallback 0)) examplePage) 0 = 0
   \<and> (\<exists>m. timers (run m mixedHost (installAll examplePage)) = []
          \<and> completed (run m mixedHost (installAll examplePage)) 0 = 4
          \<and> progressFill (run m mixedHost (installAll examplePage)) = 100)
   \<and> timers (run 8 mixedHost (installAll examplePage)) = []
   \<and> completed (run 8 mixedHost (installAll examplePage)) 0 = 4
   \<and> progressFill (run 8 mixedHost (installAll examplePage)) = 100
   \<and> logs (run 8 mixedHost (installAll examplePage))
       = [(1000, ''Starting installation for all bots...'', Info),
          (1000, ''MC1: package.json not found!'', Error),
          (2000, ''MC2: Folder not found!'', Error),
          (3000, ''MC3: Installing dependencies...'', Info),
          (3000, ''MC3: Installation error - Access is denied.'', Error),
          (4000, ''MC4: Installing dependencies...'', Info),
          (5500, ''MC4: Installation failed with exit code 1'', Error),
          (6500, ''All installations completed!'', Success)]
   \<and> completed (run 60 idleHost (installAll examplePage)) 0 < 4"
proof -
  have e: "timers examplePage = []" and k: "nextCell examplePage = 0"
    and c0: "completed examplePage 0 = 0"
    by (simp_all add: examplePage_def)
  have h: "installsEnd mixedHost"
    by (auto simp: installsEnd_def startsOnly_def mixedHost_def split: if_splits)
  have p2: "botPath examplePage ''MC2'' \<notin> folders examplePage"
    and p1: "files examplePage (botPath examplePage ''MC1'' @ bs @ ''package.json'') = None"
    and p3: "Exec mixedHost (now examplePage) (installCommand (botPath examplePage ''MC3''))
               = ExecRaised ''Access is denied.''"
    and p4: "botPath examplePage ''MC4'' \<in> folders examplePage"
       "files examplePage (botPath examplePage ''MC4'' @ bs @ ''package.json'') \<noteq> None"
       "Exec mixedHost (now examplePage) (installCommand (botPath examplePage ''MC4''))
               = ExecStarted \<lparr>exitsAt = Some 2200, ExitCode = 1\<rparr>"
    by (simp_all add: examplePage_def mixedHost_def botPath_def bs_def installCommand_def dq_def)
  let ?e = "\<lparr>exitsAt = Some 2200, ExitCode = 1\<rparr>" and ?cb = "Some (InstallAllCallback 0)"
  note t = install_reports_once [where ?s0.0 = examplePage and env = mixedHost and k = 0
      and s = examplePage and e = ?e and cb = ?cb and i = 0]
  from t [of "''MC2''"] p2
  have "completed (installBot mixedHost ''MC2'' ?cb examplePage) 0 = completed examplePage 0 + 1"
    by blast
  with c0 have a2: "completed (installBot mixedHost ''MC2'' ?cb examplePage) 0 = 1"
    by simp
  from t [of "''MC1''"] p1
  have "completed (installBot mixedHost ''MC1'' ?cb examplePage) 0 = completed examplePage 0 + 1"
    by blast
  with c0 have a1: "completed (installBot mixedHost ''MC1'' ?cb examplePage) 0 = 1"
    by simp
  from t [of "''MC3''"] p3
  have "completed (installBot mixedHost ''MC3'' ?cb examplePage) 0 = completed examplePage 0 + 1"
    by blast
  with c0 have a3: "completed (installBot mixedHost ''MC3'' ?cb examplePage) 0 = 1"
    by simp
  from t [of "''MC4''"] p4
  have "completed (installBot mixedHost ''MC4'' ?cb examplePage) = completed examplePage"
    by blast
  with c0 have a4: "completed (installBot mixedHost ''MC4'' ?cb examplePage) 0 = 0"
    by simp
  from t [of "''MC2''"] e h
  have "\<exists>m. timers (run m mixedHost (installAll examplePage)) = []
          \<and> completed (run m mixedHost (installAll examplePage)) (nextCell examplePage) = length botNames
          \<and> progressFill (run m mixedHost (installAll examplePage)) = 100"
    by blast
  then have l: "\<exists>m. timers (run m mixedHost (installAll examplePage)) = []
          \<and> completed (run m mixedHost (installAll examplePage)) 0 = 4
          \<and> progressFill (run m mixedHost (installAll examplePage)) = 100"
    by (simp add: k length_botNames)
  have r: "timers (run 8 mixedHost (installAll examplePage)) = []"
    "completed (run 8 mixedHost (installAll examplePage)) 0 = 4"
    "progressFill (run 8 mixedHost (installAll examplePage)) = 100"
    "logs (run 8 mixedHost (installAll examplePage))
       = [(1000, ''Starting installation for all bots...'', Info),
          (1000, ''MC1: package.json not found!'', Error),
          (2000, ''MC2: Folder not found!'', Error),
          (3000, ''MC3: Installing dependencies...'', Info),
          (3000, ''MC3: Installation error - Access is denied.'', Error),
          (4000, ''MC4: Installing dependencies...'', Info),
          (5500, ''MC4: Installation failed with exit code 1'', Error),
          (6500, ''All installations completed!'', Success)]"
    unfolding rounds
    by (simp_all add: run_defs examplePage_def mixedHost_def percentOf_eq showInt_1 del: decimal.simps)
  have "''MC3'' \<in> set botNames"
    by (simp add: botNames_def)
  moreover have "hangs idleHost examplePage ''MC3''"
    by (simp add: hangs_def idleHost_def examplePage_def botPath_def bs_def)
  ultimately have "completed (run 60 idleHost (installAll examplePage)) (nextCell examplePage)
      < length botNames"
    using install_reports_once [where ?s0.0 = examplePage and env = idleHost and h = "''MC3''"
        and n = 60 and s = examplePage and e = ?e and cb = ?cb and i = 0 and k = 0 and b = "''MC3''"] e
    by blast
  then have st: "completed (run 60 idleHost (installAll examplePage)) 0 < 4"
    by (simp add: k length_botNames)
  from a1 a2 a3 a4 l r st show ?thesis by blast
qed

text \<open>
  The claim as stated (the counter always reaches the number of bots and the progress
  100 percent) fails on a host where the install processes never end: after sixty rounds
  of the timers, sixteen and a half seconds after the call, the counter stands at 2 and
  the progress at 50, no announcement has been made, and the two polls are still set.
\<close>

theorem install_counter_stalls:
  "completed (run 60 idleHost (installAll examplePage)) 0 = 2
   \<and> progressFill (run 60 idleHost (installAll examplePage)) = 50
   \<and> now (run 60 idleHost (installAll examplePage)) = 17500
   \<and> alerts (run 60 idleHost (installAll examplePage)) = []
   \<and> map handler (timers (run 60 idleHost (installAll examplePage)))
       = [CheckInstall ''MC3'' \<lparr>exitsAt = None, ExitCode = 0\<rparr> (Some (InstallAllCallback 0)),
          CheckInstall ''MC4'' \<lparr>exitsAt = None, ExitCode = 0\<rparr> (Some (InstallAllCallback 0))]"
  by (simp add: run_numeral run_defs examplePage_def idleHost_def percentOf_eq)


text \<open>
  Claim C8. \<^verbatim>\<open>startAllBots\<close> sets one timeout per bot in the pattern of \<^verbatim>\<open>installAll\<close>,
  bot \<open>i\<close> due \<open>i\<close> stagger units after the call, the unit being 500 ms here and
  1000 ms there; on a page without pending timers the starts fire in index order, bot
  \<open>i\<close> exactly \<open>i * 500\<close> ms after bot 0. \<^verbatim>\<open>stopAllBots\<close> sets no timer: it is the four
  \<^verbatim>\<open>stopBot\<close> calls one after the other in index order, at one and the same clock.
\<close>

theorem startAll_staggered_stopAll_immediate:
  "timers (startAllBots s)
     = timers s @ map (\<lambda>i. \<lparr>tid = nextTimer s + i, due = now s + i * 500, period = None,
                            handler = StartTimer (botNames ! i)\<rparr>) [0..<length botNames]
   \<and> timers (installAll s)
     = timers s @ map (\<lambda>i. \<lparr>tid = nextTimer s + i, due = now s + i * 1000, period = None,
                            handler = InstallTimer (botNames ! i) (InstallAllCallback (nextCell s))\<rparr>)
                  [0..<length botNames]
   \<and> (timers s = [] \<longrightarrow>
        firings 4 env (startAllBots s)
          = [(now s, StartTimer ''MC1''), (now s + 500, StartTimer ''MC2''),
             (now s + 1000, StartTimer ''MC3''), (now s + 1500, StartTimer ''MC4'')])
   \<and> stopAllBots env s
       = stopBot env ''MC4'' (stopBot env ''MC3'' (stopBot env ''MC2'' (stopBot env ''MC1''
           (logMessage ''Stopping all bots...'' Warning s))))
   \<and> timers (stopAllBots env s) = timers s
   \<and> now (stopAllBots env s) = now s"
  using startAll_firings [of s env]
  by (simp add: startAllBots_timers installAll_fields stopAllBots_unfold)

theorem startAll_staggered_stopAll_immediate_witness:
  "timers examplePage = []
   \<and> firings 4 goodHost (startAllBots examplePage)
       = [(1000, StartTimer ''MC1''), (1500, StartTimer ''MC2''),
          (2000, StartTimer ''MC3''), (2500, StartTimer ''MC4'')]
   \<and> logs (stopAllBots idleHost examplePage)
       = [(1000, ''Stopping all bots...'', Warning),
          (1000, ''MC1: Stopping bot...'', Warning), (1000, ''MC1: Bot stopped!'', Success),
          (1000, ''MC2: Stopping bot...'', Warning), (1000, ''MC2: Bot stopped!'', Success),
          (1000, ''MC3: Stopping bot...'', Warning), (1000, ''MC3: Bot stopped!'', Success),
          (1000, ''MC4: Stopping bot...'', Warning), (1000, ''MC4: Bot stopped!'', Success)]
   \<and> launched (stopAllBots idleHost examplePage)
       = [stopCommand ''MC1'', stopCommand ''MC2'', stopCommand ''MC3'', stopCommand ''MC4'']
   \<and> timers (stopAllBots idleHost examplePage) = []"
proof -
  have e: "timers examplePage = []" and n: "now examplePage = 1000"
    by (simp_all add: examplePage_def)
  have l: "logs (stopAllBots idleHost examplePage)
       = [(1000, ''Stopping all bots...'', Warning),
          (1000, ''MC1: Stopping bot...'', Warning), (1000, ''MC1: Bot stopped!'', Success),
          (1000, ''MC2: Stopping bot...'', Warning), (1000, ''MC2: Bot stopped!'', Success),
          (1000, ''MC3: Stopping bot...'', Warning), (1000, ''MC3: Bot stopped!'', Success),
          (1000, ''MC4: Stopping bot...'', Warning), (1000, ''MC4: Bot stopped!'', Success)]"
    "launched (stopAllBots idleHost examplePage)
       = [stopCommand ''MC1'', stopCommand ''MC2'', stopCommand ''MC3'', stopCommand ''MC4'']"
    by (simp_all add: stopAllBots_unfold stopBot_def logMessage_def updateStatus_def Let_def idleHost_def
        examplePage_def)
  from startAll_staggered_stopAll_immediate [of examplePage goodHost]
    startAll_staggered_stopAll_immediate [of examplePage idleHost] e n l
  show ?thesis
    by simp
qed

end
